theory Spec2Isabelle
  imports Complex_Main "HOL-Library.Sublist" "HOL-Library.Monad_Syntax"
begin

section \<open>JavaScript numbers\<close>

text \<open>
  A JavaScript number is a binary64 value. A finite value other than the negative zero
  is modelled by the rational it denotes, the positive zero by \<open>Num 0\<close>; the negative
  zero, \<^verbatim>\<open>NaN\<close> and the two infinities are constructors of their own. The arithmetic
  operations compute the exact result and round it to the nearest binary64 value, as
  IEEE 754 prescribes. The type also has the rationals that are no binary64 value; the
  program never computes one, and what is proved for every \<open>jsnum\<close> holds for the
  binary64 values among them.
\<close>

datatype jsnum = Num rat | NegZero | NaN | PosInf | NegInf

definition signed_inf :: "bool \<Rightarrow> jsnum" where
  "signed_inf neg = (if neg then NegInf else PosInf)"

definition signed_zero :: "bool \<Rightarrow> jsnum" where
  "signed_zero neg = (if neg then NegZero else Num 0)"

text \<open>The integer part of the binary logarithm of a positive natural number.\<close>

fun ilog2 :: "nat \<Rightarrow> nat" where
  "ilog2 n = (if n < 2 then 0 else Suc (ilog2 (n div 2)))"

declare ilog2.simps [simp del]

text \<open>The power of two with an integer exponent.\<close>

definition pow2 :: "int \<Rightarrow> rat" where
  "pow2 e = (if 0 \<le> e then 2 ^ nat e else 1 / 2 ^ nat (- e))"

text \<open>The binary exponent of a positive rational \<open>a\<close>: the \<open>e\<close> with \<open>2^e \<le> a < 2^(e+1)\<close>.\<close>

definition floorLog2 :: "rat \<Rightarrow> int" where
  "floorLog2 a =
     (if 1 \<le> a then int (ilog2 (nat \<lfloor>a\<rfloor>))
      else - int (Suc (ilog2 (nat \<lceil>1 / a\<rceil> - 1))))"

text \<open>The nearest integer, a tie going to the even one.\<close>

definition roundHalfEven :: "rat \<Rightarrow> int" where
  "roundHalfEven x =
     (let f = \<lfloor>x\<rfloor>; r = x - of_int f
      in if r < 1 / 2 then f else if 1 / 2 < r then f + 1 else if even f then f else f + 1)"

text \<open>
  Rounding an exact result to binary64, to the nearest value with ties to the even
  significand. The significand has 53 bits and the least exponent is \<open>-1022\<close>, below
  which the values are subnormal with the spacing \<open>2^-1074\<close>; a result that rounds to
  \<open>2^1024\<close> or more is an infinity, and one that rounds to zero keeps its sign. The zero
  itself has no sign here: the operations decide the sign of an exact zero.
\<close>

definition round64 :: "rat \<Rightarrow> jsnum" where
  "round64 q =
     (if q = 0 then Num 0
      else
        (let a = \<bar>q\<bar>;
             e = max (floorLog2 a) (- 1022);
             u = pow2 (e - 52);
             m = roundHalfEven (a / u);
             v = of_int m * u
         in if 2 ^ 1024 \<le> v then signed_inf (q < 0)
            else if m = 0 then signed_zero (q < 0)
            else Num (if q < 0 then - v else v)))"

text \<open>\<^verbatim>\<open>Number.isFinite\<close>\<close>

fun isFinite :: "jsnum \<Rightarrow> bool" where
  "isFinite (Num q) = True"
| "isFinite NegZero = True"
| "isFinite NaN = False"
| "isFinite PosInf = False"
| "isFinite NegInf = False"

text \<open>The sign bit of a number that is not \<^verbatim>\<open>NaN\<close>.\<close>

fun js_negative :: "jsnum \<Rightarrow> bool" where
  "js_negative (Num q) = (q < 0)"
| "js_negative NegZero = True"
| "js_negative NegInf = True"
| "js_negative x = False"

fun js_zero :: "jsnum \<Rightarrow> bool" where
  "js_zero (Num q) = (q = 0)"
| "js_zero NegZero = True"
| "js_zero x = False"

fun js_infinite :: "jsnum \<Rightarrow> bool" where
  "js_infinite PosInf = True"
| "js_infinite NegInf = True"
| "js_infinite x = False"

text \<open>The value of a finite number.\<close>

fun js_value :: "jsnum \<Rightarrow> rat" where
  "js_value (Num q) = q"
| "js_value x = 0"

text \<open>
  The operator \<^verbatim>\<open>+\<close> on numbers. Infinities of opposite sign add up to \<^verbatim>\<open>NaN\<close>; an
  exact sum of zero is the positive zero unless both operands are the negative zero.
\<close>

definition js_add :: "jsnum \<Rightarrow> jsnum \<Rightarrow> jsnum" where
  "js_add x y =
     (if x = NaN \<or> y = NaN then NaN
      else if js_infinite x \<and> js_infinite y then (if x = y then x else NaN)
      else if js_infinite x then x
      else if js_infinite y then y
      else if js_value x + js_value y = 0
        then signed_zero (js_zero x \<and> js_zero y \<and> js_negative x \<and> js_negative y)
      else round64 (js_value x + js_value y))"

text \<open>
  The operator \<^verbatim>\<open>*\<close>: an infinity times a zero is \<^verbatim>\<open>NaN\<close>; the sign of an infinite
  or zero product is the product of the signs.
\<close>

definition js_mul :: "jsnum \<Rightarrow> jsnum \<Rightarrow> jsnum" where
  "js_mul x y =
     (if x = NaN \<or> y = NaN then NaN
      else if (js_infinite x \<and> js_zero y) \<or> (js_zero x \<and> js_infinite y) then NaN
      else if js_infinite x \<or> js_infinite y then signed_inf (js_negative x \<noteq> js_negative y)
      else if js_zero x \<or> js_zero y then signed_zero (js_negative x \<noteq> js_negative y)
      else round64 (js_value x * js_value y))"

text \<open>
  The operator \<^verbatim>\<open>/\<close>: zero over zero and infinity over infinity are \<^verbatim>\<open>NaN\<close>; an
  infinity over a finite number and a non-zero number over a zero are infinities, a
  finite number over an infinity and a zero over a non-zero number are zeros, with the
  sign the quotient of the signs.
\<close>

definition js_div :: "jsnum \<Rightarrow> jsnum \<Rightarrow> jsnum" where
  "js_div x y =
     (if x = NaN \<or> y = NaN then NaN
      else if (js_infinite x \<and> js_infinite y) \<or> (js_zero x \<and> js_zero y) then NaN
      else if js_infinite x \<or> js_zero y then signed_inf (js_negative x \<noteq> js_negative y)
      else if js_infinite y \<or> js_zero x then signed_zero (js_negative x \<noteq> js_negative y)
      else round64 (js_value x / js_value y))"

text \<open>
  The comparison \<^verbatim>\<open>>=\<close>: false whenever an operand is \<^verbatim>\<open>NaN\<close>; the two zeros are
  equal.
\<close>

definition js_ge :: "jsnum \<Rightarrow> jsnum \<Rightarrow> bool" where
  "js_ge x y =
     (x \<noteq> NaN \<and> y \<noteq> NaN \<and>
      (x = PosInf \<or> y = NegInf \<or>
       (\<not> js_infinite x \<and> \<not> js_infinite y \<and> js_value y \<le> js_value x)))"

text \<open>
  \<^verbatim>\<open>Math.round\<close>: the nearest integer, a tie going up; the result is the negative zero
  for the negative zero and for a negative number that rounds to zero.
\<close>

fun math_round :: "jsnum \<Rightarrow> jsnum" where
  "math_round (Num q) =
     (if \<lfloor>q + 1 / 2\<rfloor> = 0 then signed_zero (q < 0) else Num (of_int \<lfloor>q + 1 / 2\<rfloor>))"
| "math_round x = x"

section \<open>Strings\<close>

text \<open>
  A JavaScript string is modelled as a list of characters, one \<^typ>\<open>char\<close> for each code
  unit; the report and the comment bodies are taken to consist of 8-bit characters.
\<close>

text \<open>\<^verbatim>\<open>s.includes(t)\<close>: \<open>t\<close> occurs in \<open>s\<close> as a contiguous substring.\<close>

fun str_includes :: "string \<Rightarrow> string \<Rightarrow> bool" where
  "str_includes [] t = (t = [])"
| "str_includes (c # cs) t = (prefix t (c # cs) \<or> str_includes cs t)"

text \<open>\<^verbatim>\<open>s.endsWith(t)\<close>\<close>

definition endsWith :: "string \<Rightarrow> string \<Rightarrow> bool" where
  "endsWith s t = suffix t s"

text \<open>\<^verbatim>\<open>s.split(sep)\<close> for a separator of one character: never the empty array.\<close>

fun split :: "char \<Rightarrow> string \<Rightarrow> string list" where
  "split sep [] = [[]]"
| "split sep (c # cs) =
     (if c = sep then [] # split sep cs
      else (case split sep cs of [] \<Rightarrow> [[c]] | seg # segs \<Rightarrow> (c # seg) # segs))"

definition isDigit :: "char \<Rightarrow> bool" where
  "isDigit c = (c \<in> set ''0123456789'')"

text \<open>
  The white space and line terminators that \<^verbatim>\<open>parseInt\<close> and \<^verbatim>\<open>parseFloat\<close> skip at
  the start of their argument, as far as they are 8-bit characters.
\<close>

definition isWhiteSpace :: "char \<Rightarrow> bool" where
  "isWhiteSpace c =
     (c \<in> set [CHR 0x09, CHR 0x0A, CHR 0x0B, CHR 0x0C, CHR 0x0D, CHR 0x20, CHR 0xA0])"

definition digitValue :: "char \<Rightarrow> nat" where
  "digitValue c = of_char c - 48"

definition digitsValue :: "string \<Rightarrow> nat" where
  "digitsValue ds = foldl (\<lambda>acc c. 10 * acc + digitValue c) 0 ds"

text \<open>A leading sign: whether it is a minus, and the text after it.\<close>

fun stripSign :: "string \<Rightarrow> bool \<times> string" where
  "stripSign [] = (False, [])"
| "stripSign (c # cs) =
     (if c = CHR ''-'' then (True, cs)
      else if c = CHR ''+'' then (False, cs)
      else (False, c # cs))"

definition signedRat :: "bool \<Rightarrow> rat \<Rightarrow> rat" where
  "signedRat neg q = (if neg then - q else q)"

text \<open>The binary64 value of a decimal text with the given sign and exact magnitude.\<close>

definition signedNumber :: "bool \<Rightarrow> rat \<Rightarrow> jsnum" where
  "signedNumber neg v = (if v = 0 then signed_zero neg else round64 (signedRat neg v))"

text \<open>
  \<^verbatim>\<open>Number.parseInt(s, 10)\<close>: skip white space, read a sign, then the longest run of
  decimal digits; \<^verbatim>\<open>NaN\<close> when there is no digit. Whatever follows the digits is
  ignored. The result is the binary64 value nearest to the integer of the digits.
\<close>

definition parseInt :: "string \<Rightarrow> jsnum" where
  "parseInt s =
     (let (neg, S) = stripSign (dropWhile isWhiteSpace s);
          Z = takeWhile isDigit S
      in if Z = [] then NaN else signedNumber neg (of_nat (digitsValue Z)))"

text \<open>The exponent part of a decimal literal, 0 when there is none.\<close>

definition exponentPart :: "string \<Rightarrow> int" where
  "exponentPart s =
     (case s of
        [] \<Rightarrow> 0
      | c # cs \<Rightarrow>
          if c = CHR ''e'' \<or> c = CHR ''E'' then
            (let (neg, S) = stripSign cs; Z = takeWhile isDigit S
             in if Z = [] then 0 else (if neg then - int (digitsValue Z) else int (digitsValue Z)))
          else 0)"

definition scale10 :: "rat \<Rightarrow> int \<Rightarrow> rat" where
  "scale10 q e = (if e < 0 then q / 10 ^ nat (- e) else q * 10 ^ nat e)"

text \<open>
  \<^verbatim>\<open>Number.parseFloat(s)\<close>: skip white space, then read the longest prefix that is a
  signed decimal literal (\<^verbatim>\<open>Infinity\<close>, or digits with an optional fraction and
  exponent); \<^verbatim>\<open>NaN\<close> when no prefix is one. The result is the binary64 value nearest
  to the decimal value of the literal.
\<close>

definition parseFloat :: "string \<Rightarrow> jsnum" where
  "parseFloat s =
     (let (neg, U) = stripSign (dropWhile isWhiteSpace s)
      in if prefix ''Infinity'' U then signed_inf neg
         else
           (let ip = takeWhile isDigit U;
                r1 = dropWhile isDigit U;
                (fp, r2) = (case r1 of
                              [] \<Rightarrow> ([], r1)
                            | c # cs \<Rightarrow>
                                if c = CHR ''.'' \<and> (ip \<noteq> [] \<or> takeWhile isDigit cs \<noteq> [])
                                then (takeWhile isDigit cs, dropWhile isDigit cs)
                                else ([], r1))
            in if ip = [] \<and> fp = [] then NaN
               else signedNumber neg
                      (scale10 (of_nat (digitsValue ip) + of_nat (digitsValue fp) / 10 ^ length fp)
                         (exponentPart r2))))"

section \<open>The two patterns of the report\<close>

text \<open>
  Both regular expressions of \<^verbatim>\<open>parseReport\<close> are a sequence of literal texts and of
  capture groups \<^verbatim>\<open>(C+)\<close> for a character class \<open>C\<close>. Each group is followed by the
  literal character \<^verbatim>\<open>"\<close>, which is outside the class, so the greedy group takes the
  longest run of class characters and never gives one back. The matcher at one position
  is therefore a sequence of the two steps below, each returning the rest of the input.
\<close>

text \<open>A literal text: the rest of the input after it.\<close>

fun lit :: "string \<Rightarrow> string \<Rightarrow> string option" where
  "lit [] s = Some s"
| "lit (p # ps) [] = None"
| "lit (p # ps) (c # cs) = (if p = c then lit ps cs else None)"

text \<open>A group \<^verbatim>\<open>(C+)\<close>: the captured text and the rest of the input.\<close>

definition plus_class :: "(char \<Rightarrow> bool) \<Rightarrow> string \<Rightarrow> (string \<times> string) option" where
  "plus_class C s = (if takeWhile C s = [] then None else Some (takeWhile C s, dropWhile C s))"

text \<open>The class \<^verbatim>\<open>[^"]\<close>.\<close>

definition notQuote :: "char \<Rightarrow> bool" where
  "notQuote c = (c \<noteq> CHR 0x22)"

text \<open>The pattern \<^verbatim>\<open>.\<close>: any one character that is not a line terminator.\<close>

fun any_char :: "string \<Rightarrow> string option" where
  "any_char [] = None"
| "any_char (c # cs) = (if c = CHR 0x0A \<or> c = CHR 0x0D then None else Some cs)"

text \<open>
  \<^verbatim>\<open>/statement-count="(\d+)" statements-invoked="([^"]+)" statement-rate="([^"]+)" branch-rate="([^"]+)" version="1.0"/\<close>
  tried at the start of the input: the four captured texts.
\<close>

definition summaryAt :: "string \<Rightarrow> (string \<times> string \<times> string \<times> string) option" where
  \<open>summaryAt s = do {
     r1 \<leftarrow> lit ''statement-count="'' s;
     (statementCountStr, r2) \<leftarrow> plus_class isDigit r1;
     r3 \<leftarrow> lit ''" statements-invoked="'' r2;
     (statementsInvokedStr, r4) \<leftarrow> plus_class notQuote r3;
     r5 \<leftarrow> lit ''" statement-rate="'' r4;
     (statementRateStr, r6) \<leftarrow> plus_class notQuote r5;
     r7 \<leftarrow> lit ''" branch-rate="'' r6;
     (branchRateStr, r8) \<leftarrow> plus_class notQuote r7;
     r9 \<leftarrow> lit ''" version="1'' r8;
     r10 \<leftarrow> any_char r9;
     r11 \<leftarrow> lit ''0"'' r10;
     Some (statementCountStr, statementsInvokedStr, statementRateStr, branchRateStr)
   }\<close>

text \<open>\<^verbatim>\<open>xml.match(summaryRegex)\<close>: the leftmost position where the pattern matches.\<close>

fun summaryMatch :: "string \<Rightarrow> (string \<times> string \<times> string \<times> string) option" where
  "summaryMatch [] = summaryAt []"
| "summaryMatch (c # cs) =
     (case summaryAt (c # cs) of Some groups \<Rightarrow> Some groups | None \<Rightarrow> summaryMatch cs)"

text \<open>
  \<^verbatim>\<open>/name="([^"]+)" filename="([^"]+)" statement-count="([^"]+)" statements-invoked="([^"]+)"/g\<close>
  tried at the start of the input: the four captured texts and the input after the match.
\<close>

definition classAt :: "string \<Rightarrow> ((string \<times> string \<times> string \<times> string) \<times> string) option" where
  \<open>classAt s = do {
     r1 \<leftarrow> lit ''name="'' s;
     (name, r2) \<leftarrow> plus_class notQuote r1;
     r3 \<leftarrow> lit ''" filename="'' r2;
     (filename, r4) \<leftarrow> plus_class notQuote r3;
     r5 \<leftarrow> lit ''" statement-count="'' r4;
     (statementCountStr, r6) \<leftarrow> plus_class notQuote r5;
     r7 \<leftarrow> lit ''" statements-invoked="'' r6;
     (statementsInvokedStr, r8) \<leftarrow> plus_class notQuote r7;
     r9 \<leftarrow> lit [CHR 0x22] r8;
     Some ((name, filename, statementCountStr, statementsInvokedStr), r9)
   }\<close>

lemma lit_length: "lit p s = Some r \<Longrightarrow> length r + length p = length s"
  by (induction p s rule: lit.induct) (auto split: if_splits)

lemma plus_class_length: "plus_class C s = Some (g, r) \<Longrightarrow> length r < length s"
proof -
  assume h: "plus_class C s = Some (g, r)"
  then have g: "g = takeWhile C s" "r = dropWhile C s" "g \<noteq> []"
    by (auto simp: plus_class_def split: if_splits)
  have "length g + length r = length s"
    unfolding g by (metis length_append takeWhile_dropWhile_id)
  with g(3) show ?thesis by (cases g) auto
qed

lemma classAt_length: "classAt s = Some (groups, r) \<Longrightarrow> length r < length s"
  by (auto simp: classAt_def split: Option.bind_splits dest!: lit_length plus_class_length)

text \<open>
  \<^verbatim>\<open>Array.from(xml.matchAll(classRegex))\<close>: all matches from left to right, the search
  going on where the previous match ended.
\<close>

function classMatches :: "string \<Rightarrow> (string \<times> string \<times> string \<times> string) list" where
  "classMatches [] = []"
| "classMatches (c # cs) =
     (case classAt (c # cs) of
        Some (groups, r) \<Rightarrow> groups # classMatches r
      | None \<Rightarrow> classMatches cs)"
  by pat_completeness auto
termination
  by (relation "measure length") (auto dest: classAt_length)

section \<open>The report\<close>

record ReportSummary =
  statementRate :: jsnum
  statementsTotal :: jsnum

record ReportClass =
  name :: string
  filename :: string
  statementsTotal :: jsnum
  statementsInvoked :: jsnum

record ReportBucket =
  summary :: ReportSummary
  classes :: "ReportClass list"

record Report =
  all :: ReportBucket
  changed :: ReportBucket

datatype error = Error string

text \<open>The record built from one match of the class pattern.\<close>

definition reportClass :: "string \<times> string \<times> string \<times> string \<Rightarrow> ReportClass" where
  "reportClass classMatch =
     (case classMatch of (nameStr, filenameStr, statementCountStr, statementsInvokedStr) \<Rightarrow>
        \<lparr>name = nameStr, filename = filenameStr,
         statementsTotal = parseInt statementCountStr,
         statementsInvoked = parseInt statementsInvokedStr\<rparr>)"

text \<open>
  \<^verbatim>\<open>changedFiles.find(file => file.includes(classMatch.filename))\<close> as the condition of
  \<^verbatim>\<open>filter\<close>: \<^verbatim>\<open>find\<close> returns the path it found, and the filter keeps the record when
  that value is truthy, that is, when a path was found and is not the empty string.
\<close>

definition isChanged :: "string list \<Rightarrow> ReportClass \<Rightarrow> bool" where
  "isChanged changedFiles classMatch =
     (case List.find (\<lambda>file. str_includes file (filename classMatch)) changedFiles of
        None \<Rightarrow> False
      | Some file \<Rightarrow> file \<noteq> [])"

text \<open>\<^verbatim>\<open>classes.reduce((acc, classResult) => acc + f(classResult), 0)\<close>\<close>

definition sumOver :: "(ReportClass \<Rightarrow> jsnum) \<Rightarrow> ReportClass list \<Rightarrow> jsnum" where
  "sumOver f cs = foldl (\<lambda>acc classResult. js_add acc (f classResult)) (Num 0) cs"

text \<open>
  \<^verbatim>\<open>parseReport\<close>, from the text of the report file on. Reading the file is outside
  the model; the only error raised after it is the one for a missing summary.
\<close>

definition parseReport :: "string \<Rightarrow> string list \<Rightarrow> error + Report" where
  "parseReport xml changedFiles =
     (case summaryMatch xml of
        None \<Rightarrow> Inl (Error ''unable to parse scoverage summary'')
      | Some (statementCountStr, statementsInvokedStr, statementRateStr, branchRateStr) \<Rightarrow>
          (let allClasses = map reportClass (classMatches xml);
               allSummary = \<lparr>statementRate = parseFloat statementRateStr,
                             ReportSummary.statementsTotal = parseInt statementCountStr\<rparr>;
               allBucket = \<lparr>summary = allSummary, classes = allClasses\<rparr>;
               changedClasses = filter (isChanged changedFiles) allClasses;
               changedSummary =
                 \<lparr>statementRate =
                    js_mul (js_div (sumOver statementsInvoked changedClasses)
                                   (sumOver ReportClass.statementsTotal changedClasses))
                           (Num 100),
                  ReportSummary.statementsTotal =
                    sumOver ReportClass.statementsTotal changedClasses\<rparr>;
               changedBucket = \<lparr>summary = changedSummary, classes = changedClasses\<rparr>
           in Inr \<lparr>all = allBucket, changed = changedBucket\<rparr>))"

section \<open>Rendering the comment\<close>

text \<open>\<^verbatim>\<open>coverageRateIcon\<close>, the two thresholds as a pair.\<close>

definition coverageRateIcon :: "jsnum \<Rightarrow> jsnum \<times> jsnum \<Rightarrow> string" where
  "coverageRateIcon rate thresholds =
     (if js_ge rate (fst thresholds) then '':green_circle:''
      else if js_ge rate (snd thresholds) then '':yellow_circle:''
      else '':red_circle:'')"

text \<open>
  The thresholds \<^verbatim>\<open>[0.8, 0.6]\<close> of both calls: the binary64 values of the two decimal
  literals.
\<close>

definition iconThresholds :: "jsnum \<times> jsnum" where
  "iconThresholds = (round64 (4 / 5), round64 (3 / 5))"

text \<open>The function that \<^verbatim>\<open>reduce\<close> folds over the outer segments of a class name.\<close>

definition abbreviateStep :: "string \<Rightarrow> string \<Rightarrow> string" where
  "abbreviateStep acc next =
     (if endsWith acc ''...'' then acc
      else if length (acc @ ''.'' @ next) > 80 - 3 then acc @ ''...''
      else acc @ ''.'' @ next)"

text \<open>
  \<^verbatim>\<open>classNameAbbreviated\<close>: the segments of the name in reverse, the first of them the
  start value of the fold. \<^verbatim>\<open>split\<close> never returns the empty array; on it JavaScript
  would fold nothing over \<^verbatim>\<open>undefined\<close>.
\<close>

definition classNameAbbreviated :: "string \<Rightarrow> string" where
  "classNameAbbreviated className =
     (case rev (split (CHR ''.'') className) of
        [] \<Rightarrow> ''undefined''
      | innermost # outer \<Rightarrow> foldl abbreviateStep innermost outer)"

text \<open>
  How a number is printed is the JavaScript runtime's business and needs the binary64
  value; both printers are parameters of the renderer: \<^verbatim>\<open>x.toFixed(1)\<close> and the
  conversion of a number inside a template literal.
\<close>

record NumberFormat =
  toFixed1 :: "jsnum \<Rightarrow> string"
  toString :: "jsnum \<Rightarrow> string"

text \<open>One row of the table, the text appended to \<^verbatim>\<open>result\<close> for one class.\<close>

definition renderClass :: "NumberFormat \<Rightarrow> ReportClass \<Rightarrow> string" where
  "renderClass fmt classResult =
     (let statementCoverageRate =
            js_div (statementsInvoked classResult) (ReportClass.statementsTotal classResult);
          statementCoverageText =
            toFixed1 fmt (js_mul statementCoverageRate (Num 100)) @ ''% (''
              @ toString fmt (statementsInvoked classResult) @ ''/''
              @ toString fmt (ReportClass.statementsTotal classResult) @ '')'';
          statementCoverageIcon = coverageRateIcon statementCoverageRate iconThresholds
      in ''| `'' @ classNameAbbreviated (name classResult) @ ''` | '' @ statementCoverageIcon
           @ '' '' @ statementCoverageText @ '' |\<newline>'')"

text \<open>
  \<^verbatim>\<open>renderBucket\<close> assigns to the variable \<^verbatim>\<open>result\<close> of the enclosing function; here
  it takes the value of \<^verbatim>\<open>result\<close> and returns the new one.
\<close>

definition renderBucket :: "NumberFormat \<Rightarrow> string \<Rightarrow> ReportBucket \<Rightarrow> string \<Rightarrow> string" where
  "renderBucket fmt title bucket result =
     (let summaryStatementCoverageRate = js_div (statementRate (summary bucket)) (Num 100);
          summaryStatementCoverage =
            toFixed1 fmt (js_mul summaryStatementCoverageRate (Num 100)) @ ''% (''
              @ toString fmt (math_round
                  (js_mul (js_div (statementRate (summary bucket)) (Num 100))
                          (ReportSummary.statementsTotal (summary bucket))))
              @ ''/'' @ toString fmt (ReportSummary.statementsTotal (summary bucket)) @ '')'';
          summaryStatementCoverageIcon =
            coverageRateIcon summaryStatementCoverageRate iconThresholds;
          result1 = result @ ''<details>\<newline>'';
          result2 = result1 @ ''<summary>'' @ title @ '' '' @ summaryStatementCoverageIcon
                      @ '' '' @ summaryStatementCoverage @ ''</summary>\<newline>'';
          result3 = result2 @ ''\<newline>'';
          result4 = result3 @ ''| Class | Statement coverage |\<newline>'';
          result5 = result4 @ ''|---|---|\<newline>'';
          result6 = foldl (\<lambda>acc classResult. acc @ renderClass fmt classResult) result5
                      (classes bucket);
          result7 = result6 @ ''\<newline>''
      in result7 @ ''</details>\<newline>'')"

definition renderCommentMarkdown :: "NumberFormat \<Rightarrow> Report \<Rightarrow> string" where
  "renderCommentMarkdown fmt report =
     (let result = [];
          result1 = (if isFinite (statementRate (summary (all report)))
                     then renderBucket fmt ''All files'' (all report) result else result);
          result2 = (if isFinite (statementRate (summary (changed report)))
                     then renderBucket fmt ''Changed files'' (changed report) result1 else result1)
      in result2)"

section \<open>Publishing the comment\<close>

text \<open>
  A comment of the pull request as the comment store lists it; the body may be absent.
\<close>

record IssueComment =
  comment_id :: nat
  body :: "string option"

text \<open>The two calls that write to the comment store, with their arguments.\<close>

datatype 'r call =
    UpdateComment 'r nat string
  | CreateComment 'r nat string

definition commentTag :: string where
  \<open>commentTag = ''<!-- airfocusio/github-action-scoverage-pull-request-comment "" -->''\<close>

text \<open>\<^verbatim>\<open>comment?.body?.includes(commentTag)\<close>: falsy when there is no body.\<close>

definition hasTag :: "IssueComment \<Rightarrow> bool" where
  "hasTag comment = (case body comment of None \<Rightarrow> False | Some b \<Rightarrow> str_includes b commentTag)"

text \<open>
  The loop over the pages of comments: the comment found, if any, and the number of pages
  that were fetched. The loop leaves at the first page that has a tagged comment.
\<close>

fun findExisting :: "IssueComment list list \<Rightarrow> IssueComment option \<times> nat" where
  "findExisting [] = (None, 0)"
| "findExisting (comments # pages) =
     (case List.find hasTag comments of
        Some foundComment \<Rightarrow> (Some foundComment, 1)
      | None \<Rightarrow> (case findExisting pages of (existingComment, n) \<Rightarrow> (existingComment, Suc n)))"

text \<open>
  \<^verbatim>\<open>createOrUpdateIssueComment\<close>: the pages are what the comment store lists for the
  issue; the result is the number of pages fetched and the write calls made, in order.
\<close>

definition createOrUpdateIssueComment ::
  "IssueComment list list \<Rightarrow> 'r \<Rightarrow> nat \<Rightarrow> string \<Rightarrow> nat \<times> 'r call list" where
  "createOrUpdateIssueComment pages repository issueNumber commentBody =
     (case findExisting pages of
        (Some existingComment, n) \<Rightarrow>
          (n, [UpdateComment repository (comment_id existingComment)
                 (commentBody @ ''\<newline>\<newline>'' @ commentTag)])
      | (None, n) \<Rightarrow>
          (n, [CreateComment repository issueNumber
                 (commentBody @ ''\<newline>\<newline>'' @ commentTag)]))"

section \<open>A printer for examples\<close>

text \<open>
  A number format to evaluate the renderer on examples. On \<^verbatim>\<open>NaN\<close>, on the infinities
  and on binary64 values of magnitude below \<open>10^21\<close> its \<open>toFixed1\<close> is JavaScript's
  \<^verbatim>\<open>toFixed(1)\<close>, and its \<open>toString\<close> is JavaScript's conversion on the integers among
  them, the only finite values the program converts. Other finite values print as their
  integer part, which is not what JavaScript prints.
\<close>

fun natDigits :: "nat \<Rightarrow> string" where
  "natDigits n =
     (if n < 10 then [char_of (48 + n)] else natDigits (n div 10) @ [char_of (48 + n mod 10)])"

declare natDigits.simps [simp del]

definition intDigits :: "int \<Rightarrow> string" where
  "intDigits i = (if i < 0 then ''-'' @ natDigits (nat (- i)) else natDigits (nat i))"

fun exampleToString :: "jsnum \<Rightarrow> string" where
  "exampleToString (Num q) = intDigits \<lfloor>q\<rfloor>"
| "exampleToString NegZero = ''0''"
| "exampleToString NaN = ''NaN''"
| "exampleToString PosInf = ''Infinity''"
| "exampleToString NegInf = ''-Infinity''"

fun exampleToFixed1 :: "jsnum \<Rightarrow> string" where
  "exampleToFixed1 (Num q) =
     (let n = nat \<lfloor>\<bar>q\<bar> * 10 + 1 / 2\<rfloor>
      in (if q < 0 then ''-'' else []) @ natDigits (n div 10) @ ''.'' @ natDigits (n mod 10))"
| "exampleToFixed1 NegZero = ''0.0''"
| "exampleToFixed1 x = exampleToString x"

definition exampleFormat :: NumberFormat where
  "exampleFormat = \<lparr>toFixed1 = exampleToFixed1, toString = exampleToString\<rparr>"

section \<open>An example report\<close>

text \<open>
  The scenario of the specification: a summary of 80 of 100 statements and one class
  \<^verbatim>\<open>a.B\<close> of the file \<^verbatim>\<open>a/B.scala\<close> with 5 of 10 statements.
\<close>

definition exampleXml :: string where
  \<open>exampleXml = ''<scoverage statement-count="100" statements-invoked="80" statement-rate="80.0" branch-rate="50.00" version="1.0" timestamp="1"><class name="a.B" filename="a/B.scala" statement-count="10" statements-invoked="5"></class></scoverage>''\<close>

definition exampleClass :: ReportClass where
  "exampleClass = \<lparr>name = ''a.B'', filename = ''a/B.scala'',
                    statementsTotal = Num 10, statementsInvoked = Num 5\<rparr>"

definition exampleAll :: ReportBucket where
  "exampleAll = \<lparr>summary = \<lparr>statementRate = Num 80, ReportSummary.statementsTotal = Num 100\<rparr>,
                  classes = [exampleClass]\<rparr>"

definition exampleNaNSummary :: ReportSummary where
  "exampleNaNSummary = \<lparr>statementRate = NaN, ReportSummary.statementsTotal = Num 0\<rparr>"

text \<open>The report for the example when a path \<^verbatim>\<open>src/a/B.scala\<close> has changed.\<close>

definition exampleReport :: Report where
  "exampleReport =
     \<lparr>all = exampleAll,
      changed = \<lparr>summary = \<lparr>statementRate = Num 50, ReportSummary.statementsTotal = Num 10\<rparr>,
                  classes = [exampleClass]\<rparr>\<rparr>"

text \<open>A report whose only class has no statements.\<close>

definition exampleZeroXml :: string where
  \<open>exampleZeroXml = ''<scoverage statement-count="100" statements-invoked="80" statement-rate="80.0" branch-rate="50.00" version="1.0"><class name="a.E" filename="a/E.scala" statement-count="0" statements-invoked="0"></class></scoverage>''\<close>

definition exampleZeroClass :: ReportClass where
  "exampleZeroClass = \<lparr>name = ''a.E'', filename = ''a/E.scala'',
                        statementsTotal = Num 0, statementsInvoked = Num 0\<rparr>"

definition exampleZeroReport :: Report where
  "exampleZeroReport =
     \<lparr>all = \<lparr>summary = \<lparr>statementRate = Num 80, ReportSummary.statementsTotal = Num 100\<rparr>,
              classes = [exampleZeroClass]\<rparr>,
      changed = \<lparr>summary = exampleNaNSummary, classes = [exampleZeroClass]\<rparr>\<rparr>"

text \<open>A report with a summary and no class, and a document with no summary.\<close>

definition exampleEmptyXml :: string where
  \<open>exampleEmptyXml = ''<scoverage statement-count="0" statements-invoked="0" statement-rate="0.00" branch-rate="0.00" version="1.0"></scoverage>''\<close>

definition exampleNoSummaryXml :: string where
  \<open>exampleNoSummaryXml = ''<scoverage><class name="a.B" filename="a/B.scala" statement-count="10" statements-invoked="5"></class></scoverage>''\<close>

text \<open>
  The example report with text that is no number: as the statement rate of the summary,
  as the statement count of the summary, and as the counts of the class.
\<close>

definition exampleBadRateXml :: string where
  \<open>exampleBadRateXml = ''<scoverage statement-count="100" statements-invoked="80" statement-rate="abc" branch-rate="50.00" version="1.0" timestamp="1"><class name="a.B" filename="a/B.scala" statement-count="10" statements-invoked="5"></class></scoverage>''\<close>

definition exampleBadCountXml :: string where
  \<open>exampleBadCountXml = ''<scoverage statement-count="abc" statements-invoked="80" statement-rate="80.0" branch-rate="50.00" version="1.0" timestamp="1"><class name="a.B" filename="a/B.scala" statement-count="10" statements-invoked="5"></class></scoverage>''\<close>

definition exampleBadClassXml :: string where
  \<open>exampleBadClassXml = ''<scoverage statement-count="100" statements-invoked="80" statement-rate="80.0" branch-rate="50.00" version="1.0" timestamp="1"><class name="a.B" filename="a/B.scala" statement-count="many" statements-invoked="x5"></class></scoverage>''\<close>

text \<open>A class name of four segments, three of them of 30 characters.\<close>

definition exampleLongName :: string where
  "exampleLongName =
     replicate 30 (CHR ''a'') @ ''.'' @ replicate 30 (CHR ''b'') @ ''.''
       @ replicate 30 (CHR ''c'') @ ''.D''"

text \<open>The example with 7 of 100 statements invoked in its class.\<close>

definition exampleSevenXml :: string where
  \<open>exampleSevenXml = ''<scoverage statement-count="100" statements-invoked="80" statement-rate="80.0" branch-rate="50.00" version="1.0" timestamp="1"><class name="a.B" filename="a/B.scala" statement-count="100" statements-invoked="7"></class></scoverage>''\<close>

definition exampleSevenClass :: ReportClass where
  "exampleSevenClass = \<lparr>name = ''a.B'', filename = ''a/B.scala'',
                         statementsTotal = Num 100, statementsInvoked = Num 7\<rparr>"

text \<open>
  A report whose four classes have the totals \<open>1\<close>, \<open>10^20\<close>, \<open>-10^20\<close> and \<open>-1\<close>, which
  add up to zero exactly and to \<open>-1\<close> in binary64, from left to right.
\<close>

definition exampleCancelXml :: string where
  \<open>exampleCancelXml = ''<scoverage statement-count="100" statements-invoked="80" statement-rate="80.0" branch-rate="50.00" version="1.0"><class name="a.B" filename="a/B.scala" statement-count="1" statements-invoked="1"><class name="a.C" filename="a/B.scala" statement-count="100000000000000000000" statements-invoked="1"><class name="a.D" filename="a/B.scala" statement-count="-100000000000000000000" statements-invoked="1"><class name="a.E" filename="a/B.scala" statement-count="-1" statements-invoked="1"></scoverage>''\<close>

section \<open>Notions of the specification\<close>

text \<open>The comparison \<^verbatim>\<open><\<close> of JavaScript, in which the thresholds of the icons are stated.\<close>

definition js_lt :: "jsnum \<Rightarrow> jsnum \<Rightarrow> bool" where
  "js_lt x y =
     (x \<noteq> NaN \<and> y \<noteq> NaN \<and> x \<noteq> PosInf \<and> y \<noteq> NegInf \<and>
      (x = NegInf \<or> y = PosInf \<or> js_value x < js_value y))"

text \<open>The body that a write call publishes.\<close>

fun callBody :: "'r call \<Rightarrow> string" where
  "callBody (UpdateComment repository commentId text) = text"
| "callBody (CreateComment repository issueNumber text) = text"

text \<open>
  The text of a document-level summary marker with the given four fields and the given
  character between the \<^verbatim>\<open>1\<close> and the \<^verbatim>\<open>0\<close> of the version.
\<close>

definition summaryText :: "string \<Rightarrow> string \<Rightarrow> string \<Rightarrow> string \<Rightarrow> char \<Rightarrow> string" where
  \<open>summaryText statementCountStr statementsInvokedStr statementRateStr branchRateStr ch =
     ''statement-count="'' @ statementCountStr
       @ ''" statements-invoked="'' @ statementsInvokedStr
       @ ''" statement-rate="'' @ statementRateStr
       @ ''" branch-rate="'' @ branchRateStr
       @ ''" version="1'' @ [ch] @ ''0"''\<close>

text \<open>
  The document-level summary marker as a set of texts: what the summary pattern denotes.
  The statement count is a non-empty run of digits, the other three fields are non-empty
  and free of double quotes, and the character in the version is not a line terminator.
\<close>

definition summaryMarker :: "string \<Rightarrow> string \<times> string \<times> string \<times> string \<Rightarrow> bool" where
  "summaryMarker m groups =
     (case groups of (statementCountStr, statementsInvokedStr, statementRateStr, branchRateStr) \<Rightarrow>
        statementCountStr \<noteq> [] \<and> list_all isDigit statementCountStr \<and>
        statementsInvokedStr \<noteq> [] \<and> list_all notQuote statementsInvokedStr \<and>
        statementRateStr \<noteq> [] \<and> list_all notQuote statementRateStr \<and>
        branchRateStr \<noteq> [] \<and> list_all notQuote branchRateStr \<and>
        (\<exists>ch. ch \<noteq> CHR 0x0A \<and> ch \<noteq> CHR 0x0D \<and>
           m = summaryText statementCountStr statementsInvokedStr statementRateStr
                 branchRateStr ch))"

text \<open>The text of a per-unit marker with the given four fields.\<close>

definition classText :: "string \<Rightarrow> string \<Rightarrow> string \<Rightarrow> string \<Rightarrow> string" where
  \<open>classText nameStr filenameStr statementCountStr statementsInvokedStr =
     ''name="'' @ nameStr @ ''" filename="'' @ filenameStr
       @ ''" statement-count="'' @ statementCountStr
       @ ''" statements-invoked="'' @ statementsInvokedStr @ [CHR 0x22]\<close>

text \<open>
  The per-unit marker as a set of texts: what the class pattern denotes. All four fields
  are non-empty and free of double quotes.
\<close>

definition classMarker :: "string \<Rightarrow> string \<times> string \<times> string \<times> string \<Rightarrow> bool" where
  "classMarker m groups =
     (case groups of (nameStr, filenameStr, statementCountStr, statementsInvokedStr) \<Rightarrow>
        nameStr \<noteq> [] \<and> list_all notQuote nameStr \<and>
        filenameStr \<noteq> [] \<and> list_all notQuote filenameStr \<and>
        statementCountStr \<noteq> [] \<and> list_all notQuote statementCountStr \<and>
        statementsInvokedStr \<noteq> [] \<and> list_all notQuote statementsInvokedStr \<and>
        m = classText nameStr filenameStr statementCountStr statementsInvokedStr)"

text \<open>A marker can be located in a document when it occurs somewhere in its text.\<close>

definition hasSummaryMarker :: "string \<Rightarrow> bool" where
  "hasSummaryMarker xml = (\<exists>pre m post groups. xml = pre @ m @ post \<and> summaryMarker m groups)"

definition hasClassMarker :: "string \<Rightarrow> bool" where
  "hasClassMarker xml = (\<exists>pre m post groups. xml = pre @ m @ post \<and> classMarker m groups)"

text \<open>
  Text from which \<^verbatim>\<open>parseInt\<close> reads a number: after white space and an optional sign
  it has a digit.
\<close>

definition signText :: "string \<Rightarrow> bool" where
  "signText sg = (sg = [] \<or> sg = ''+'' \<or> sg = ''-'')"

definition intPrefixed :: "string \<Rightarrow> bool" where
  "intPrefixed s =
     (\<exists>ws sg d rest. s = ws @ sg @ d # rest \<and> list_all isWhiteSpace ws \<and> signText sg \<and>
        isDigit d)"

text \<open>
  Text from which \<^verbatim>\<open>parseFloat\<close> reads a number: after white space and an optional
  sign it has \<^verbatim>\<open>Infinity\<close>, a digit, or a decimal point and a digit.
\<close>

definition floatPrefixed :: "string \<Rightarrow> bool" where
  "floatPrefixed s =
     (\<exists>ws sg body rest. s = ws @ sg @ body @ rest \<and> list_all isWhiteSpace ws \<and> signText sg \<and>
        (body = ''Infinity'' \<or> (\<exists>d. isDigit d \<and> (body = [d] \<or> body = [CHR ''.'', d]))))"

text \<open>
  The abbreviation of a class name in the words of the specification: keep the innermost
  segment, then append the remaining segments one by one, each after a dot, as long as
  the result has at most 77 characters; where a segment would not fit, append three dots
  and stop.
\<close>

fun greedyAppend :: "string \<Rightarrow> string list \<Rightarrow> string" where
  "greedyAppend acc [] = acc"
| "greedyAppend acc (seg # segs) =
     (if length (acc @ ''.'' @ seg) \<le> 77 then greedyAppend (acc @ ''.'' @ seg) segs
      else acc @ ''...'')"

text \<open>
  The specification has the remaining segments appended from the outermost to the
  innermost, which is the reverse of their order in the reversed list of segments.
\<close>

definition specAbbreviated :: "string \<Rightarrow> string" where
  "specAbbreviated className =
     (case rev (split (CHR ''.'') className) of
        [] \<Rightarrow> []
      | innermost # remaining \<Rightarrow> greedyAppend innermost (rev remaining))"

text \<open>\<^verbatim>\<open>segments.join('.')\<close>\<close>

fun joinDots :: "string list \<Rightarrow> string" where
  "joinDots [] = []"
| "joinDots [seg] = seg"
| "joinDots (seg # segs) = seg @ ''.'' @ joinDots segs"

text \<open>
  The condition of the fold under which the test \<^verbatim>\<open>acc.endsWith('...')\<close> sees nothing
  but a truncation: the dots at the end of the text so far and the empty segments that
  come next are fewer than three together.
\<close>

definition dotsBelowThree :: "string \<Rightarrow> string list \<Rightarrow> bool" where
  "dotsBelowThree acc outer =
     (\<not> endsWith acc ''...'' \<and>
      (endsWith acc ''..'' \<longrightarrow> \<not> prefix [[]] outer) \<and>
      (endsWith acc ''.'' \<longrightarrow> \<not> prefix [[], []] outer))"

section \<open>Facts about rounding\<close>

lemma ilog2_bounds: "0 < n \<Longrightarrow> 2 ^ ilog2 n \<le> n \<and> n < 2 * 2 ^ ilog2 n"
proof (induction n rule: ilog2.induct)
  case (1 n)
  show ?case
  proof (cases "n < 2")
    case True
    with 1 show ?thesis by (simp add: ilog2.simps [of n])
  next
    case False
    then have "0 < n div 2" by simp
    with 1 False have "2 ^ ilog2 (n div 2) \<le> n div 2 \<and> n div 2 < 2 * 2 ^ ilog2 (n div 2)"
      by simp
    with False show ?thesis
      by (simp add: ilog2.simps [of n]) linarith
  qed
qed

lemma pow2_power_int: "pow2 e = 2 powi e"
  by (simp add: pow2_def power_int_def inverse_eq_divide power_one_over)

lemma pow2_pos: "0 < pow2 e"
  by (simp add: pow2_power_int)

lemma pow2_add: "pow2 (a + b) = pow2 a * pow2 b"
  by (simp add: pow2_power_int power_int_add)

lemma pow2_nat: "pow2 (int n) = 2 ^ n"
  by (simp add: pow2_def)

lemma pow2_neg_nat: "pow2 (- int n) = 1 / 2 ^ n"
  by (simp add: pow2_power_int power_int_minus inverse_eq_divide)

lemma of_nat_pow2_le: "2 ^ k \<le> n \<Longrightarrow> (2::rat) ^ k \<le> of_nat n"
proof -
  assume "2 ^ k \<le> n"
  then have "(of_nat (2 ^ k) :: rat) \<le> of_nat n"
    by (simp only: of_nat_le_iff)
  then show ?thesis by simp
qed

lemma of_nat_le_pow2: "n \<le> 2 * 2 ^ k \<Longrightarrow> (of_nat n :: rat) \<le> 2 * 2 ^ k"
proof -
  assume "n \<le> 2 * 2 ^ k"
  then have "(of_nat n :: rat) \<le> of_nat (2 * 2 ^ k)"
    by (simp only: of_nat_le_iff)
  then show ?thesis by simp
qed

lemma pow2_mono: "a \<le> b \<Longrightarrow> pow2 a \<le> pow2 b"
  by (simp add: pow2_power_int power_int_increasing)

lemma floorLog2_bounds:
  assumes "0 < a"
  shows "pow2 (floorLog2 a) \<le> a \<and> a < pow2 (floorLog2 a + 1)"
proof (cases "1 \<le> a")
  case True
  define n where "n = nat \<lfloor>a\<rfloor>"
  have n: "0 < n" "of_nat n \<le> a" "a < of_nat n + 1"
    using True by (auto simp: n_def) linarith+
  from ilog2_bounds [OF n(1)] have "(2::rat) ^ ilog2 n \<le> of_nat n"
    by (intro of_nat_pow2_le) simp
  moreover from ilog2_bounds [OF n(1)] have "(of_nat (Suc n) :: rat) \<le> 2 * 2 ^ ilog2 n"
    by (intro of_nat_le_pow2) simp
  then have "(of_nat n :: rat) + 1 \<le> 2 * 2 ^ ilog2 n"
    by simp
  ultimately have "(2::rat) ^ ilog2 n \<le> of_nat n" and "(of_nat n :: rat) + 1 \<le> 2 * 2 ^ ilog2 n"
    by blast+
  with n have "2 ^ ilog2 n \<le> a" and "a < 2 * 2 ^ ilog2 n"
    by linarith+
  moreover have "floorLog2 a = int (ilog2 n)"
    using True by (simp add: floorLog2_def n_def)
  moreover have "pow2 (int (ilog2 n) + 1) = 2 * 2 ^ ilog2 n"
    using pow2_nat [of "Suc (ilog2 n)"] by (simp add: add.commute)
  ultimately show ?thesis
    by (simp add: pow2_nat)
next
  case False
  define N where "N = nat \<lceil>1 / a\<rceil>"
  from False assms have big: "1 < 1 / a"
    by (simp add: field_simps)
  then have N: "2 \<le> N" "1 / a \<le> of_nat N" "of_nat N - 1 < 1 / a"
    by (auto simp: N_def) linarith+
  define k where "k = ilog2 (N - 1)"
  from N(1) have "0 < N - 1" by simp
  from ilog2_bounds [OF this] have b: "2 ^ k \<le> N - 1" "N - 1 < 2 * 2 ^ k"
    by (simp_all add: k_def)
  from b(1) have "(2::rat) ^ k \<le> of_nat (N - 1)"
    by (rule of_nat_pow2_le)
  with N(1) have "(2::rat) ^ k \<le> of_nat N - 1"
    by (simp add: of_nat_diff)
  with N(3) have lo: "2 ^ k < 1 / a"
    by linarith
  from b(2) have "N \<le> 2 * 2 ^ k" by simp
  then have "(of_nat N :: rat) \<le> 2 * 2 ^ k"
    by (rule of_nat_le_pow2)
  with N(2) have hi: "1 / a \<le> 2 * 2 ^ k"
    by linarith
  have e: "floorLog2 a = - int (Suc k)"
    using False by (simp add: floorLog2_def N_def k_def)
  have p1: "pow2 (floorLog2 a) = 1 / (2 * 2 ^ k)"
    unfolding e using pow2_neg_nat [of "Suc k"] by simp
  have p2: "pow2 (floorLog2 a + 1) = 1 / 2 ^ k"
    unfolding e using pow2_neg_nat [of k] by simp
  from hi assms have "1 / (2 * 2 ^ k) \<le> a"
    by (simp add: field_simps)
  moreover from lo assms have "a < 1 / 2 ^ k"
    by (simp add: field_simps)
  ultimately show ?thesis
    by (simp add: p1 p2)
qed

lemma roundHalfEven_close: "\<bar>of_int (roundHalfEven x) - x\<bar> \<le> 1 / 2"
proof -
  have "of_int \<lfloor>x\<rfloor> \<le> x" and "x < of_int \<lfloor>x\<rfloor> + 1"
    by linarith+
  then show ?thesis
    by (auto simp: roundHalfEven_def Let_def)
qed

lemma roundHalfEven_int: "roundHalfEven (of_int k) = k"
  by (simp add: roundHalfEven_def)

lemma round64_not_NaN: "round64 q \<noteq> NaN"
  by (simp add: round64_def Let_def signed_inf_def signed_zero_def)

text \<open>A positive integer of at most 53 bits is a binary64 value.\<close>

lemma round64_nat:
  assumes "0 < n" and "n \<le> 2 ^ 53"
  shows "round64 (of_nat n) = Num (of_nat n)"
proof -
  define a :: rat where "a = of_nat n"
  have a: "1 \<le> a" "0 < a"
    using assms(1) by (simp_all add: a_def)
  have fl: "floorLog2 a = int (ilog2 n)"
    using a by (simp add: floorLog2_def a_def)
  from ilog2_bounds [OF assms(1)] assms(2) have le: "2 ^ ilog2 n \<le> (2::nat) ^ 53"
    by linarith
  have k: "ilog2 n \<le> 53"
    by (rule power_le_imp_le_exp [OF _ le]) simp
  define e where "e = int (ilog2 n)"
  have e: "max (floorLog2 a) (- 1022) = e"
    by (simp add: fl e_def)
  have int: "\<exists>j::int. a / pow2 (e - 52) = of_int j"
  proof (cases "ilog2 n = 53")
    case True
    with ilog2_bounds [OF assms(1)] assms(2) have "n = 2 ^ 53"
      by simp
    then have "a / pow2 (e - 52) = of_int (2 ^ 52)"
      using True by (simp add: a_def e_def pow2_def)
    then show ?thesis by blast
  next
    case False
    with k have "ilog2 n \<le> 52" by simp
    then have "e - 52 = - int (52 - ilog2 n)"
      by (simp add: e_def)
    then have "pow2 (e - 52) = 1 / 2 ^ (52 - ilog2 n)"
      using pow2_neg_nat by simp
    then have "a / pow2 (e - 52) = of_int (int n * 2 ^ (52 - ilog2 n))"
      by (simp add: a_def)
    then show ?thesis by blast
  qed
  then obtain j :: int where j: "a / pow2 (e - 52) = of_int j"
    by blast
  have v: "of_int j * pow2 (e - 52) = a"
    using j pow2_pos [of "e - 52"] by (simp add: field_simps)
  have "j \<noteq> 0"
    using v a by auto
  moreover have "a < 2 ^ 1024"
  proof -
    have "(of_nat n :: rat) \<le> of_nat (2 ^ 53)"
      using assms(2) by (simp only: of_nat_le_iff)
    then have "a \<le> 2 ^ 53" by (simp add: a_def)
    moreover have "(2::rat) ^ 53 < 2 ^ 1024" by simp
    ultimately show ?thesis by linarith
  qed
  ultimately show ?thesis
    using a e j v
    by (simp add: round64_def Let_def roundHalfEven_int a_def [symmetric] del: power_strict_increasing_iff)
qed

lemma pow2_less_imp: "pow2 a < pow2 b \<Longrightarrow> a < b"
  using pow2_mono [of b a] by (cases "a < b") auto

lemma pow2_diff: "pow2 (a - b) = pow2 a / pow2 b"
  by (simp add: pow2_power_int power_int_diff)

lemma round64_error:
  assumes lo: "pow2 (- 1022) \<le> q" and hi: "q < pow2 1023"
  shows "\<exists>r. round64 q = Num r \<and> 0 < r \<and> \<bar>r - q\<bar> \<le> q / 2 ^ 53"
proof -
  have q: "0 < q"
    using lo pow2_pos [of "- 1022"] by linarith
  define e where "e = floorLog2 q"
  from floorLog2_bounds [OF q] have b: "pow2 e \<le> q" "q < pow2 (e + 1)"
    by (simp_all add: e_def)
  from lo b(2) have "pow2 (- 1022) < pow2 (e + 1)"
    by linarith
  then have e_lo: "- 1022 \<le> e"
    using pow2_less_imp by fastforce
  from hi b(1) have "pow2 e < pow2 1023"
    by linarith
  then have e_hi: "e + 1 \<le> 1023"
    using pow2_less_imp by fastforce
  define u where "u = pow2 (e - 52)"
  have u: "0 < u"
    by (simp add: u_def pow2_pos)
  have u52: "u * 2 ^ 52 = pow2 e"
    using pow2_add [of "e - 52" 52] pow2_nat [of 52] by (simp add: u_def)
  have u53: "u * 2 ^ 53 = pow2 (e + 1)"
    using pow2_add [of "e - 52" 53] pow2_nat [of 53] by (simp add: u_def add.commute)
  define x where "x = q / u"
  define m where "m = roundHalfEven x"
  have xq: "x * u = q"
    using u by (simp add: x_def)
  have x_lo: "2 ^ 52 \<le> x"
  proof -
    have "2 ^ 52 * u \<le> x * u"
      using b(1) u52 xq by (simp add: mult.commute)
    then show ?thesis
      using u by simp
  qed
  have x_hi: "x < 2 ^ 53"
  proof -
    have "x * u < 2 ^ 53 * u"
      using b(2) u53 xq by (simp add: mult.commute)
    then show ?thesis
      using u by simp
  qed
  have close: "\<bar>of_int m - x\<bar> \<le> 1 / 2"
    unfolding m_def by (rule roundHalfEven_close)
  have m_pos: "0 < m"
  proof -
    have "(1::rat) \<le> 2 ^ 52" by simp
    with x_lo close have "(0::rat) < of_int m" by linarith
    then show ?thesis by simp
  qed
  have m_hi: "m \<le> 2 ^ 53"
  proof -
    from x_hi close have "(of_int m :: rat) < 2 ^ 53 + 1" by linarith
    then have "(of_int m :: rat) < of_int (2 ^ 53 + 1)" by simp
    then have "m < 2 ^ 53 + 1" by (simp only: of_int_less_iff)
    then show ?thesis by simp
  qed
  define v where "v = of_int m * u"
  have v_pos: "0 < v"
    using m_pos u by (simp add: v_def)
  have v_hi: "v < 2 ^ 1024"
  proof -
    have "(of_int m :: rat) \<le> of_int (2 ^ 53)"
      using m_hi by (simp only: of_int_le_iff)
    then have "(of_int m :: rat) \<le> 2 ^ 53" by simp
    then have "v \<le> 2 ^ 53 * u"
      using u by (simp add: v_def)
    also have "\<dots> = pow2 (e + 1)"
      using u53 by (simp add: mult.commute)
    also have "\<dots> \<le> pow2 1023"
      using e_hi by (rule pow2_mono)
    also have "\<dots> < 2 ^ 1024"
      using pow2_nat [of 1023] by simp
    finally show ?thesis .
  qed
  have err: "\<bar>v - q\<bar> \<le> q / 2 ^ 53"
  proof -
    have "v - q = (of_int m - x) * u"
      by (simp add: v_def xq [symmetric] algebra_simps)
    then have "\<bar>v - q\<bar> = \<bar>of_int m - x\<bar> * u"
      using u by (simp add: abs_mult)
    also have "\<dots> \<le> 1 / 2 * u"
      using close u by (intro mult_right_mono) simp_all
    also have "\<dots> = pow2 e / 2 ^ 53"
      using u52 by (simp add: field_simps)
    also have "\<dots> \<le> q / 2 ^ 53"
      using b(1) by (simp add: divide_right_mono)
    finally show ?thesis .
  qed
  have aq: "\<bar>q\<bar> = q"
    using q by simp
  have emax: "max (floorLog2 q) (- 1022) = e"
    using e_lo by (simp add: e_def)
  have "round64 q = Num v"
    unfolding round64_def Let_def aq emax u_def [symmetric] x_def [symmetric]
      m_def [symmetric] v_def [symmetric]
    using q m_pos v_hi by simp
  with v_pos err show ?thesis by blast
qed

lemma floorLog2_unique:
  assumes "pow2 e \<le> a" and "a < pow2 (e + 1)"
  shows "floorLog2 a = e"
proof -
  have a: "0 < a"
    using assms(1) pow2_pos [of e] by linarith
  from floorLog2_bounds [OF a] have b: "pow2 (floorLog2 a) \<le> a" "a < pow2 (floorLog2 a + 1)"
    by simp_all
  from b(1) assms(2) have "pow2 (floorLog2 a) < pow2 (e + 1)"
    by linarith
  then have "floorLog2 a < e + 1"
    by (rule pow2_less_imp)
  moreover from assms(1) b(2) have "pow2 e < pow2 (floorLog2 a + 1)"
    by linarith
  then have "e < floorLog2 a + 1"
    by (rule pow2_less_imp)
  ultimately show ?thesis by linarith
qed

lemma roundHalfEven_unique:
  assumes "\<bar>of_int m - x\<bar> < 1 / 2"
  shows "roundHalfEven x = m"
proof -
  from roundHalfEven_close [of x] assms
  have "\<bar>(of_int (roundHalfEven x) :: rat) - of_int m\<bar> < 1"
    by linarith
  then have "\<bar>(of_int (roundHalfEven x - m) :: rat)\<bar> < of_int 1"
    by simp
  then have "\<bar>roundHalfEven x - m\<bar> < 1"
    by (simp only: of_int_abs [symmetric] of_int_less_iff)
  then show ?thesis by linarith
qed

text \<open>
  The value of a rounding, from the exponent of the argument and a significand that is
  less than half a unit in the last place away from it.
\<close>

lemma round64_nearest:
  assumes e_lo: "- 1022 \<le> e" and e_hi: "e \<le> 1022"
    and lo: "pow2 e \<le> q" and hi: "q < pow2 (e + 1)"
    and near: "\<bar>of_int m * pow2 (e - 52) - q\<bar> < pow2 (e - 52) / 2"
  shows "round64 q = Num (of_int m * pow2 (e - 52))"
proof -
  have q: "0 < q"
    using lo pow2_pos [of e] by linarith
  have fl: "floorLog2 q = e"
    using lo hi by (rule floorLog2_unique)
  define u where "u = pow2 (e - 52)"
  have u: "0 < u"
    by (simp add: u_def pow2_pos)
  have u52: "u * 2 ^ 52 = pow2 e"
    using pow2_add [of "e - 52" 52] pow2_nat [of 52] by (simp add: u_def)
  have u53: "u * 2 ^ 53 = pow2 (e + 1)"
    using pow2_add [of "e - 52" 53] pow2_nat [of 53] by (simp add: u_def add.commute)
  define x where "x = q / u"
  have xq: "x * u = q"
    using u by (simp add: x_def)
  have x_lo: "2 ^ 52 \<le> x"
  proof -
    have "2 ^ 52 * u \<le> x * u"
      using lo u52 xq by (simp add: mult.commute)
    then show ?thesis
      using u by simp
  qed
  have x_hi: "x < 2 ^ 53"
  proof -
    have "x * u < 2 ^ 53 * u"
      using hi u53 xq by (simp add: mult.commute)
    then show ?thesis
      using u by simp
  qed
  have close: "\<bar>of_int m - x\<bar> < 1 / 2"
  proof -
    have "of_int m * u - q = (of_int m - x) * u"
      by (simp add: xq [symmetric] algebra_simps)
    then have "\<bar>of_int m * u - q\<bar> = \<bar>of_int m - x\<bar> * u"
      using u by (simp add: abs_mult)
    with near have "\<bar>of_int m - x\<bar> * u < 1 / 2 * u"
      by (simp add: u_def)
    then show ?thesis
      using u by simp
  qed
  have m: "roundHalfEven x = m"
    using close by (rule roundHalfEven_unique)
  have m_pos: "0 < m"
  proof -
    have "(1::rat) \<le> 2 ^ 52" by simp
    with x_lo close have "(0::rat) < of_int m" by linarith
    then show ?thesis by simp
  qed
  have m_hi: "m \<le> 2 ^ 53"
  proof -
    from x_hi close have "(of_int m :: rat) < 2 ^ 53 + 1" by linarith
    then have "(of_int m :: rat) < of_int (2 ^ 53 + 1)" by simp
    then have "m < 2 ^ 53 + 1" by (simp only: of_int_less_iff)
    then show ?thesis by simp
  qed
  define v where "v = of_int m * u"
  have v_hi: "v < 2 ^ 1024"
  proof -
    have "(of_int m :: rat) \<le> of_int (2 ^ 53)"
      using m_hi by (simp only: of_int_le_iff)
    then have "(of_int m :: rat) \<le> 2 ^ 53" by simp
    then have "v \<le> 2 ^ 53 * u"
      using u by (simp add: v_def)
    also have "\<dots> = pow2 (e + 1)"
      using u53 by (simp add: mult.commute)
    also have "\<dots> \<le> pow2 1023"
      using e_hi by (intro pow2_mono) simp
    also have "\<dots> < 2 ^ 1024"
      using pow2_nat [of 1023] by simp
    finally show ?thesis .
  qed
  have aq: "\<bar>q\<bar> = q"
    using q by simp
  have emax: "max (floorLog2 q) (- 1022) = e"
    using e_lo by (simp add: fl)
  have "round64 q = Num v"
    unfolding round64_def Let_def aq emax u_def [symmetric] x_def [symmetric] m
      v_def [symmetric]
    using q m_pos v_hi by simp
  then show ?thesis
    by (simp add: v_def u_def)
qed

text \<open>Rounding is symmetric: the negative of a value that rounds to a non-zero number.\<close>

lemma round64_minus:
  assumes "round64 q = Num r" and "r \<noteq> 0"
  shows "round64 (- q) = Num (- r)"
proof -
  from assms have q: "q \<noteq> 0"
    by (auto simp: round64_def)
  define m where "m = roundHalfEven (\<bar>q\<bar> / pow2 (max (floorLog2 \<bar>q\<bar>) (- 1022) - 52))"
  define v where "v = of_int m * pow2 (max (floorLog2 \<bar>q\<bar>) (- 1022) - 52)"
  have r: "round64 q = (if 2 ^ 1024 \<le> v then signed_inf (q < 0)
            else if m = 0 then signed_zero (q < 0) else Num (if q < 0 then - v else v))"
    using q by (simp add: round64_def Let_def m_def v_def)
  have r': "round64 (- q) = (if 2 ^ 1024 \<le> v then signed_inf (0 < q)
            else if m = 0 then signed_zero (0 < q) else Num (if 0 < q then - v else v))"
    using q by (simp add: round64_def Let_def m_def v_def)
  from assms r have nv: "\<not> 2 ^ 1024 \<le> v"
    by (auto simp: signed_inf_def split: if_splits)
  from assms r nv have nm: "m \<noteq> 0"
    by (auto simp: signed_zero_def v_def split: if_splits)
  from assms r nv nm have "r = (if q < 0 then - v else v)"
    by simp
  with r' nv nm q show ?thesis
    by (auto simp del: power_strict_increasing_iff)
qed

lemma round64_numeral:
  "numeral k \<le> (9007199254740992::nat) \<Longrightarrow> round64 (numeral k) = Num (numeral k)"
  using round64_nat [of "numeral k"] by simp

lemma round64_one: "round64 1 = Num 1"
  using round64_nat [of 1] by simp

lemma round64_neg_numeral:
  "numeral k \<le> (9007199254740992::nat) \<Longrightarrow> round64 (- numeral k) = Num (- numeral k)"
  using round64_minus [OF round64_numeral, of k] by simp

lemma round64_neg_one: "round64 (- 1) = Num (- 1)"
  using round64_minus [OF round64_one] by simp

text \<open>The two thresholds of the icons, \<^verbatim>\<open>0.8\<close> and \<^verbatim>\<open>0.6\<close> as binary64 values.\<close>

lemma round64_four_fifths: "round64 (4 / 5) = Num (3602879701896397 / 4503599627370496)"
  using round64_nearest [of "- 1" "4 / 5" 7205759403792794] by (simp add: pow2_def)

lemma round64_three_fifths: "round64 (3 / 5) = Num (5404319552844595 / 9007199254740992)"
  using round64_nearest [of "- 1" "3 / 5" 5404319552844595] by (simp add: pow2_def)

lemma round64_half: "round64 (1 / 2) = Num (1 / 2)"
  using round64_nearest [of "- 1" "1 / 2" 4503599627370496] by (simp add: pow2_def)

lemma floor_rat_numeral: "\<lfloor>(numeral a :: rat) / numeral b\<rfloor> = numeral a div numeral b"
  using floor_divide_of_int_eq [of "numeral a" "numeral b", where ?'a = rat] by simp

text \<open>The rules that evaluate the parsers and the arithmetic on numerals.\<close>

lemmas parse_defs = parseInt_def parseFloat_def isDigit_def isWhiteSpace_def digitsValue_def
  digitValue_def signedNumber_def signedRat_def signed_zero_def signed_inf_def exponentPart_def
  scale10_def round64_numeral round64_one round64_neg_numeral round64_neg_one

lemmas arith_defs = js_add_def js_mul_def js_div_def js_ge_def signed_zero_def signed_inf_def
  round64_numeral round64_one round64_neg_numeral round64_neg_one round64_half
  round64_four_fifths round64_three_fifths floor_rat_numeral


section \<open>Auxiliary facts\<close>

lemma find_filter_conv:
  "List.find P xs = (case filter P xs of [] \<Rightarrow> None | x # _ \<Rightarrow> Some x)"
  by (induction xs) auto

lemma findExisting_fst: "fst (findExisting pages) = List.find hasTag (concat pages)"
  by (induction pages) (auto simp: find_filter_conv split: list.splits prod.splits)

lemma findExisting_snd:
  "snd (findExisting pages) =
     (if list_ex (list_ex hasTag) pages
      then Suc (length (takeWhile (\<lambda>comments. \<not> list_ex hasTag comments) pages))
      else length pages)"
  by (induction pages)
     (auto simp: find_filter_conv list_ex_iff filter_empty_conv split: list.splits prod.splits)

lemma str_includes_sublist: "str_includes s t = sublist t s"
  by (induction s) (auto simp: sublist_Cons_right)

lemma str_includes_iff: "str_includes s t \<longleftrightarrow> (\<exists>p q. s = p @ t @ q)"
  by (simp add: str_includes_sublist sublist_def)

lemma isChanged_iff:
  assumes "filename c \<noteq> []"
  shows "isChanged changedFiles c \<longleftrightarrow> (\<exists>file \<in> set changedFiles. \<exists>p q. file = p @ filename c @ q)"
proof -
  have ne: "\<And>file. str_includes file (filename c) \<Longrightarrow> file \<noteq> []"
    using assms by (auto simp: str_includes_iff)
  show ?thesis
    unfolding isChanged_def
    by (auto simp: find_None_iff find_Some_iff str_includes_iff [symmetric] dest: ne
             split: option.splits)
qed

lemma classAt_nonempty:
  "classAt s = Some ((n, f, c, i), r) \<Longrightarrow> n \<noteq> [] \<and> f \<noteq> [] \<and> c \<noteq> [] \<and> i \<noteq> []"
  by (auto simp: classAt_def plus_class_def split: Option.bind_splits if_splits)

lemma classMatches_nonempty:
  "g \<in> set (classMatches s) \<Longrightarrow> fst (snd g) \<noteq> []"
proof (induction s rule: classMatches.induct)
  case 1
  then show ?case by simp
next
  case (2 ch cs)
  show ?case
  proof (cases "classAt (ch # cs)")
    case None
    with 2 show ?thesis by simp
  next
    case (Some m)
    obtain n f c i r where m: "m = ((n, f, c, i), r)"
      by (cases m) auto
    have at: "classAt (ch # cs) = Some ((n, f, c, i), r)"
      using Some unfolding m .
    then have "f \<noteq> []"
      using classAt_nonempty by blast
    have IH: "g \<in> set (classMatches r) \<Longrightarrow> fst (snd g) \<noteq> []"
      by (rule "2.IH"(2) [OF at refl])
    from "2.prems" at have "g = (n, f, c, i) \<or> g \<in> set (classMatches r)"
      by simp
    with IH \<open>f \<noteq> []\<close> show ?thesis by auto
  qed
qed

lemma foldl_append_conv:
  "foldl (\<lambda>acc x. acc @ f x) a xs = a @ concat (map f xs)"
  by (induction xs arbitrary: a) auto

lemma renderBucket_appends:
  "renderBucket fmt title bucket result = result @ renderBucket fmt title bucket []"
  by (simp add: renderBucket_def Let_def foldl_append_conv)

lemma renderBucket_prefix:
  "prefix (''<details>\<newline><summary>'' @ title @ '' '') (renderBucket fmt title bucket [])"
  by (simp add: renderBucket_def Let_def foldl_append_conv)

lemma reportClass_filename:
  "g \<in> set (classMatches xml) \<Longrightarrow> filename (reportClass g) \<noteq> []"
  using classMatches_nonempty [of g xml] by (cases g) (auto simp: reportClass_def)

lemma lit_iff: "lit p s = Some r \<longleftrightarrow> s = p @ r"
  by (induction p s rule: lit.induct) auto

lemma plus_class_SomeD:
  "plus_class C s = Some (g, r) \<Longrightarrow> s = g @ r \<and> g \<noteq> [] \<and> list_all C g"
  by (auto simp: plus_class_def list_all_iff split: if_splits dest: set_takeWhileD)

lemma plus_class_stop:
  "g \<noteq> [] \<Longrightarrow> list_all C g \<Longrightarrow> \<not> C x \<Longrightarrow> plus_class C (g @ x # r) = Some (g, x # r)"
  by (simp add: plus_class_def list_all_iff takeWhile_tail dropWhile_append3
        takeWhile_append2 dropWhile_append2)

lemma any_char_iff: "any_char s = Some r \<longleftrightarrow> (\<exists>ch. s = ch # r \<and> ch \<noteq> CHR 0x0A \<and> ch \<noteq> CHR 0x0D)"
  by (cases s) auto

lemma quote_not_digit: "\<not> isDigit (CHR 0x22)"
  by (simp add: isDigit_def)

lemma quote_not_notQuote: "\<not> notQuote (CHR 0x22)"
  by (simp add: notQuote_def)

lemma summaryAt_sound:
  assumes "summaryAt s = Some groups"
  shows "\<exists>m post. s = m @ post \<and> summaryMarker m groups"
proof -
  obtain a b c d where g: "groups = (a, b, c, d)"
    by (cases groups) auto
  from assms obtain ch post where
    s: "s = summaryText a b c d ch @ post" and
    ok: "a \<noteq> []" "list_all isDigit a" "b \<noteq> []" "list_all notQuote b"
        "c \<noteq> []" "list_all notQuote c" "d \<noteq> []" "list_all notQuote d"
        "ch \<noteq> CHR 0x0A" "ch \<noteq> CHR 0x0D"
    unfolding summaryAt_def summaryText_def g
    by (auto simp: lit_iff any_char_iff split: Option.bind_splits dest!: plus_class_SomeD)
  from ok have "summaryMarker (summaryText a b c d ch) groups"
    unfolding summaryMarker_def g by auto
  with s show ?thesis by blast
qed

lemma summaryAt_complete:
  assumes "summaryMarker m groups"
  shows "summaryAt (m @ post) = Some groups"
  using assms unfolding summaryAt_def summaryMarker_def summaryText_def
  by (auto simp: lit_iff any_char_iff plus_class_stop quote_not_digit quote_not_notQuote)

lemma classAt_sound:
  assumes "classAt s = Some (groups, r)"
  shows "\<exists>m. s = m @ r \<and> classMarker m groups"
proof -
  obtain a b c d where g: "groups = (a, b, c, d)"
    by (cases groups) auto
  from assms have
    s: "s = classText a b c d @ r" and
    ok: "a \<noteq> []" "list_all notQuote a" "b \<noteq> []" "list_all notQuote b"
        "c \<noteq> []" "list_all notQuote c" "d \<noteq> []" "list_all notQuote d"
    unfolding classAt_def classText_def g
    by (auto simp: lit_iff split: Option.bind_splits dest!: plus_class_SomeD)
  from ok have "classMarker (classText a b c d) groups"
    unfolding classMarker_def g by auto
  with s show ?thesis by blast
qed

lemma classAt_complete:
  assumes "classMarker m groups"
  shows "classAt (m @ r) = Some (groups, r)"
  using assms unfolding classAt_def classMarker_def classText_def
  by (auto simp: lit_iff plus_class_stop quote_not_notQuote)

lemma summaryMatch_None_iff:
  "summaryMatch xml = None \<longleftrightarrow> (\<forall>pre s. xml = pre @ s \<longrightarrow> summaryAt s = None)"
proof (induction xml)
  case Nil
  then show ?case by simp
next
  case (Cons c cs)
  have "(\<forall>pre s. c # cs = pre @ s \<longrightarrow> summaryAt s = None) \<longleftrightarrow>
        summaryAt (c # cs) = None \<and> (\<forall>pre s. cs = pre @ s \<longrightarrow> summaryAt s = None)"
    by (auto simp: Cons_eq_append_conv)
  with Cons show ?case
    by (auto split: option.splits)
qed

lemma summaryMatch_None_marker: "summaryMatch xml = None \<longleftrightarrow> \<not> hasSummaryMarker xml"
proof
  assume n: "summaryMatch xml = None"
  show "\<not> hasSummaryMarker xml"
  proof
    assume "hasSummaryMarker xml"
    then obtain pre m post groups where x: "xml = pre @ m @ post" and m: "summaryMarker m groups"
      unfolding hasSummaryMarker_def by blast
    from n x have "summaryAt (m @ post) = None"
      by (simp add: summaryMatch_None_iff)
    with summaryAt_complete [OF m, of post] show False by simp
  qed
next
  assume h: "\<not> hasSummaryMarker xml"
  show "summaryMatch xml = None"
    unfolding summaryMatch_None_iff
  proof (intro allI impI)
    fix pre s
    assume x: "xml = pre @ s"
    show "summaryAt s = None"
    proof (cases "summaryAt s")
      case None
      then show ?thesis .
    next
      case (Some groups)
      from summaryAt_sound [OF Some] x have "hasSummaryMarker xml"
        unfolding hasSummaryMarker_def by blast
      with h show ?thesis by simp
    qed
  qed
qed

lemma summaryMatch_Some_at:
  "summaryMatch xml = Some groups \<Longrightarrow> \<exists>pre s. xml = pre @ s \<and> summaryAt s = Some groups"
proof (induction xml)
  case Nil
  then show ?case by simp
next
  case (Cons c cs)
  show ?case
  proof (cases "summaryAt (c # cs)")
    case None
    with Cons obtain pre s where "cs = pre @ s" "summaryAt s = Some groups"
      by auto
    then have "c # cs = (c # pre) @ s \<and> summaryAt s = Some groups"
      by simp
    then show ?thesis by blast
  next
    case (Some g)
    with Cons.prems have "c # cs = [] @ (c # cs) \<and> summaryAt (c # cs) = Some groups"
      by simp
    then show ?thesis by blast
  qed
qed

lemma summaryMatch_Some_marker:
  assumes "summaryMatch xml = Some groups"
  shows "\<exists>pre m post. xml = pre @ m @ post \<and> summaryMarker m groups"
proof -
  from summaryMatch_Some_at [OF assms] obtain pre s where
    x: "xml = pre @ s" and s: "summaryAt s = Some groups"
    by blast
  from summaryAt_sound [OF s] x show ?thesis by blast
qed

lemma classMatches_Nil_iff:
  "classMatches xml = [] \<longleftrightarrow> (\<forall>pre s. xml = pre @ s \<longrightarrow> classAt s = None)"
proof (induction xml rule: classMatches.induct)
  case 1
  show ?case by (simp add: classAt_def)
next
  case (2 c cs)
  have split: "(\<forall>pre s. c # cs = pre @ s \<longrightarrow> classAt s = None) \<longleftrightarrow>
        classAt (c # cs) = None \<and> (\<forall>pre s. cs = pre @ s \<longrightarrow> classAt s = None)"
    by (auto simp: Cons_eq_append_conv)
  show ?case
  proof (cases "classAt (c # cs)")
    case None
    with "2.IH"(1) split show ?thesis by simp
  next
    case (Some m)
    then show ?thesis
      unfolding split by (cases m) simp
  qed
qed

lemma classMatches_Nil_marker: "classMatches xml = [] \<longleftrightarrow> \<not> hasClassMarker xml"
proof
  assume n: "classMatches xml = []"
  show "\<not> hasClassMarker xml"
  proof
    assume "hasClassMarker xml"
    then obtain pre m post groups where x: "xml = pre @ m @ post" and m: "classMarker m groups"
      unfolding hasClassMarker_def by blast
    from n x have "classAt (m @ post) = None"
      by (simp add: classMatches_Nil_iff)
    with classAt_complete [OF m, of post] show False by simp
  qed
next
  assume h: "\<not> hasClassMarker xml"
  show "classMatches xml = []"
    unfolding classMatches_Nil_iff
  proof (intro allI impI)
    fix pre s
    assume x: "xml = pre @ s"
    show "classAt s = None"
    proof (cases "classAt s")
      case None
      then show ?thesis .
    next
      case (Some g)
      obtain groups r where g: "g = (groups, r)"
        by (cases g) auto
      from classAt_sound [OF Some [unfolded g]] x have "hasClassMarker xml"
        unfolding hasClassMarker_def by blast
      with h show ?thesis by simp
    qed
  qed
qed

lemma digit_not_space: "isDigit c \<Longrightarrow> \<not> isWhiteSpace c"
  by (auto simp: isDigit_def isWhiteSpace_def)

lemma digit_not_sign: "isDigit c \<Longrightarrow> c \<noteq> CHR ''-'' \<and> c \<noteq> CHR ''+''"
  by (auto simp: isDigit_def)

lemma split_nonempty: "split sep s \<noteq> []"
  by (induction s) (auto split: list.splits)

lemma split_no_sep: "seg \<in> set (split sep s) \<Longrightarrow> sep \<notin> set seg"
  by (induction s arbitrary: seg) (auto split: list.splits if_splits)

lemma joinDots_Cons: "segs \<noteq> [] \<Longrightarrow> joinDots (seg # segs) = seg @ ''.'' @ joinDots segs"
  by (cases segs) auto

lemma joinDots_split: "joinDots (split (CHR ''.'') s) = s"
proof (induction s)
  case Nil
  show ?case by simp
next
  case (Cons c cs)
  obtain seg segs where sp: "split (CHR ''.'') cs = seg # segs"
    using split_nonempty [of "CHR ''.''" cs] by (cases "split (CHR ''.'') cs") auto
  show ?case
  proof (cases "c = CHR ''.''")
    case True
    with Cons sp show ?thesis by simp
  next
    case False
    with Cons sp show ?thesis by (cases segs) auto
  qed
qed

lemma split_dotfree: "CHR ''.'' \<notin> set seg \<Longrightarrow> split (CHR ''.'') seg = [seg]"
  by (induction seg) auto

lemma split_append_dot:
  "CHR ''.'' \<notin> set seg \<Longrightarrow> split (CHR ''.'') (seg @ CHR ''.'' # rest) = seg # split (CHR ''.'') rest"
  by (induction seg) auto

lemma split_joinDots:
  "segs \<noteq> [] \<Longrightarrow> \<forall>seg \<in> set segs. CHR ''.'' \<notin> set seg \<Longrightarrow>
   split (CHR ''.'') (joinDots segs) = segs"
proof (induction segs rule: joinDots.induct)
  case 1
  then show ?case by simp
next
  case (2 seg)
  then show ?case by (simp add: split_dotfree)
next
  case (3 seg s segs)
  then show ?case by (simp add: split_append_dot)
qed

lemma length_joinDots: "length (joinDots segs) = sum_list (map length segs) + (length segs - 1)"
  by (induction segs rule: joinDots.induct) auto

lemma length_joinDots_rev: "length (joinDots (rev segs)) = length (joinDots segs)"
  by (simp add: length_joinDots rev_map [symmetric])

lemma joinDots_snoc_head:
  "joinDots ((a @ CHR ''.'' # seg) # segs) = a @ CHR ''.'' # joinDots (seg # segs)"
  by (cases segs) auto

lemma endsWith_last: "endsWith z (t @ [c]) \<Longrightarrow> z \<noteq> [] \<and> last z = c"
  by (auto simp: endsWith_def suffix_def)

lemma endsWith_dot_seg:
  assumes "seg \<noteq> []" and "CHR ''.'' \<notin> set seg"
  shows "\<not> endsWith (acc @ ''.'' @ seg) ''.''"
    and "\<not> endsWith (acc @ ''.'' @ seg) ''..''"
    and "\<not> endsWith (acc @ ''.'' @ seg) ''...''"
proof -
  have l: "last (acc @ ''.'' @ seg) \<noteq> CHR ''.''"
    using assms by (metis append_is_Nil_conv last_appendR last_in_set)
  show "\<not> endsWith (acc @ ''.'' @ seg) ''.''"
    using endsWith_last [of "acc @ ''.'' @ seg" "[]" "CHR ''.''"] l by auto
  show "\<not> endsWith (acc @ ''.'' @ seg) ''..''"
    using endsWith_last [of "acc @ ''.'' @ seg" "''.''" "CHR ''.''"] l by auto
  show "\<not> endsWith (acc @ ''.'' @ seg) ''...''"
    using endsWith_last [of "acc @ ''.'' @ seg" "''..''" "CHR ''.''"] l by auto
qed

lemma endsWith_dot_empty:
  "endsWith (acc @ ''.'') ''.''"
  "endsWith (acc @ ''.'') ''..'' \<longleftrightarrow> endsWith acc ''.''"
  "endsWith (acc @ ''.'') ''...'' \<longleftrightarrow> endsWith acc ''..''"
  using snoc_suffix_snoc [of "[]" "CHR ''.''" acc "CHR ''.''"]
        snoc_suffix_snoc [of "''.''" "CHR ''.''" acc "CHR ''.''"]
        snoc_suffix_snoc [of "''..''" "CHR ''.''" acc "CHR ''.''"]
  by (simp_all add: endsWith_def)

lemma endsWith_dotfree:
  assumes "CHR ''.'' \<notin> set seg"
  shows "\<not> endsWith seg ''.''" and "\<not> endsWith seg ''..''" and "\<not> endsWith seg ''...''"
proof -
  have no: "\<not> endsWith seg (t @ [CHR ''.''])" for t
  proof
    assume "endsWith seg (t @ [CHR ''.''])"
    then have "seg \<noteq> []" and "last seg = CHR ''.''"
      using endsWith_last by blast+
    then have "CHR ''.'' \<in> set seg"
      using last_in_set by metis
    with assms show False by simp
  qed
  from no [of "[]"] show "\<not> endsWith seg ''.''" by simp
  from no [of "''.''"] show "\<not> endsWith seg ''..''" by simp
  from no [of "''..''"] show "\<not> endsWith seg ''...''" by simp
qed

lemma abbreviateStep_stopped:
  "endsWith acc ''...'' \<Longrightarrow> foldl abbreviateStep acc segs = acc"
  by (induction segs) (auto simp: abbreviateStep_def)

lemma endsWith_three_dots: "endsWith (acc @ ''...'') ''...''"
  by (simp add: endsWith_def suffix_def)

lemma dotsBelowThree_step:
  assumes q: "dotsBelowThree acc (seg # segs)"
    and e: "\<not> sublist [[], [], []] (seg # segs)"
    and d: "CHR ''.'' \<notin> set seg"
  shows "dotsBelowThree (acc @ ''.'' @ seg) segs"
proof (cases "seg = []")
  case True
  from e have "\<not> prefix [[], [], []] ([] # segs)"
    unfolding True using prefix_imp_sublist by blast
  then have p2: "\<not> prefix [[], []] segs"
    by simp
  from q have "\<not> endsWith acc ''..''" and "endsWith acc ''.'' \<longrightarrow> \<not> prefix [[]] segs"
    unfolding dotsBelowThree_def True by simp_all
  with p2 show ?thesis
    unfolding dotsBelowThree_def True by (simp add: endsWith_dot_empty)
next
  case False
  from endsWith_dot_seg [OF False d, of acc] show ?thesis
    unfolding dotsBelowThree_def by simp
qed

lemma abbreviate_greedy:
  "dotsBelowThree acc outer \<Longrightarrow> \<not> sublist [[], [], []] outer \<Longrightarrow>
   \<forall>seg \<in> set outer. CHR ''.'' \<notin> set seg \<Longrightarrow>
   foldl abbreviateStep acc outer = greedyAppend acc outer"
proof (induction outer arbitrary: acc)
  case Nil
  show ?case by simp
next
  case (Cons seg segs)
  from Cons.prems(1) have ne: "\<not> endsWith acc ''...''"
    by (simp add: dotsBelowThree_def)
  from Cons.prems(2) have e: "\<not> sublist [[], [], []] segs"
    by (simp add: sublist_Cons_right)
  show ?case
  proof (cases "length (acc @ ''.'' @ seg) \<le> 77")
    case True
    have "dotsBelowThree (acc @ ''.'' @ seg) segs"
      using Cons.prems by (intro dotsBelowThree_step) auto
    from Cons.IH [OF this e] Cons.prems(3) True ne show ?thesis
      by (simp add: abbreviateStep_def)
  next
    case False
    with ne have "abbreviateStep acc seg = acc @ ''...''"
      by (simp add: abbreviateStep_def)
    with False show ?thesis
      using abbreviateStep_stopped [OF endsWith_three_dots, of acc segs] by simp
  qed
qed

lemma joinDots_no_three_dots:
  "dotsBelowThree acc outer \<Longrightarrow> \<not> sublist [[], [], []] outer \<Longrightarrow>
   \<forall>seg \<in> set outer. CHR ''.'' \<notin> set seg \<Longrightarrow>
   \<not> endsWith (joinDots (acc # outer)) ''...''"
proof (induction outer arbitrary: acc)
  case Nil
  then show ?case by (simp add: dotsBelowThree_def)
next
  case (Cons seg segs)
  from Cons.prems(2) have e: "\<not> sublist [[], [], []] segs"
    by (simp add: sublist_Cons_right)
  have "dotsBelowThree (acc @ ''.'' @ seg) segs"
    using Cons.prems by (intro dotsBelowThree_step) auto
  from Cons.IH [OF this e] Cons.prems(3) show ?case
    by (simp add: joinDots_snoc_head)
qed

lemma greedyAppend_cases:
  "greedyAppend acc outer = joinDots (acc # outer) \<or> endsWith (greedyAppend acc outer) ''...''"
proof (induction outer arbitrary: acc)
  case Nil
  show ?case by simp
next
  case (Cons seg segs)
  show ?case
  proof (cases "length (acc @ ''.'' @ seg) \<le> 77")
    case True
    with Cons [of "acc @ ''.'' @ seg"] show ?thesis
      by (simp add: joinDots_snoc_head)
  next
    case False
    then show ?thesis
      using endsWith_three_dots [of acc] by simp
  qed
qed

lemma length_joinDots_head: "length seg \<le> length (joinDots (seg # segs))"
  by (cases segs) auto

lemma greedyAppend_short:
  "length (joinDots (acc # outer)) \<le> 77 \<Longrightarrow> greedyAppend acc outer = joinDots (acc # outer)"
proof (induction outer arbitrary: acc)
  case Nil
  show ?case by simp
next
  case (Cons seg segs)
  have j: "joinDots (acc # seg # segs) = joinDots ((acc @ ''.'' @ seg) # segs)"
    by (simp add: joinDots_snoc_head)
  from Cons.prems have le: "length (joinDots ((acc @ ''.'' @ seg) # segs)) \<le> 77"
    unfolding j .
  with length_joinDots_head [of "acc @ ''.'' @ seg" segs]
  have fits: "length (acc @ ''.'' @ seg) \<le> 77"
    by (rule order_trans)
  from Cons.IH [OF le] have "greedyAppend (acc @ ''.'' @ seg) segs = joinDots (acc # seg # segs)"
    unfolding j .
  with fits show ?case
    by (simp only: greedyAppend.simps if_True)
qed

lemma abbreviate_length:
  "acc = innermost \<or> length acc \<le> 77 \<or>
     (endsWith acc ''...'' \<and> length acc \<le> max 80 (length innermost + 3)) \<Longrightarrow>
   length (foldl abbreviateStep acc outer) \<le> max 80 (length innermost + 3)"
proof (induction outer arbitrary: acc)
  case Nil
  then show ?case by auto
next
  case (Cons seg segs)
  have "abbreviateStep acc seg = innermost \<or> length (abbreviateStep acc seg) \<le> 77 \<or>
     (endsWith (abbreviateStep acc seg) ''...'' \<and>
      length (abbreviateStep acc seg) \<le> max 80 (length innermost + 3))"
    using Cons.prems endsWith_three_dots [of acc]
    by (auto simp: abbreviateStep_def)
  from Cons.IH [OF this] show ?case by simp
qed
lemma classNameAbbreviated_fold:
  assumes "rev (split (CHR ''.'') className) = innermost # outer"
  shows "classNameAbbreviated className = foldl abbreviateStep innermost outer"
  using assms by (simp add: classNameAbbreviated_def)

lemma segments_dotfree:
  assumes "rev (split (CHR ''.'') className) = innermost # outer"
  shows "CHR ''.'' \<notin> set innermost" and "\<forall>seg \<in> set outer. CHR ''.'' \<notin> set seg"
proof -
  have "set (innermost # outer) = set (split (CHR ''.'') className)"
    using assms by (metis set_rev)
  then show "CHR ''.'' \<notin> set innermost" and "\<forall>seg \<in> set outer. CHR ''.'' \<notin> set seg"
    using split_no_sep [of _ "CHR ''.''" className] by auto
qed

lemma dotsBelowThree_dotfree: "CHR ''.'' \<notin> set seg \<Longrightarrow> dotsBelowThree seg outer"
  using endsWith_dotfree [of seg] by (simp add: dotsBelowThree_def)

lemma classNameAbbreviated_greedyAppend:
  assumes "rev (split (CHR ''.'') className) = innermost # outer"
    and "\<not> sublist [[], [], []] outer"
  shows "classNameAbbreviated className = greedyAppend innermost outer"
  unfolding classNameAbbreviated_fold [OF assms(1)]
  using segments_dotfree [OF assms(1)] assms(2)
  by (intro abbreviate_greedy dotsBelowThree_dotfree)

lemma classNameAbbreviated_short:
  assumes r: "rev (split (CHR ''.'') className) = innermost # outer"
    and e: "\<not> sublist [[], [], []] outer"
    and l: "length className \<le> 77"
  shows "classNameAbbreviated className = joinDots (innermost # outer)"
proof -
  have "length (joinDots (innermost # outer)) = length (joinDots (split (CHR ''.'') className))"
    using length_joinDots_rev [of "split (CHR ''.'') className"] r by simp
  with l have "length (joinDots (innermost # outer)) \<le> 77"
    by (simp add: joinDots_split)
  then show ?thesis
    using classNameAbbreviated_greedyAppend [OF r e] greedyAppend_short by simp
qed

lemma not_sublist_tl: "\<not> sublist xs ys \<Longrightarrow> \<not> sublist xs (tl ys)"
  by (cases ys) (auto simp: sublist_Cons_right)

lemma classNameAbbreviated_twice:
  assumes e: "\<not> sublist [[], [], []] (split (CHR ''.'') className)"
    and l: "length className \<le> 77"
  shows "classNameAbbreviated (classNameAbbreviated className) = className"
proof -
  define segs where "segs = split (CHR ''.'') className"
  have ne: "segs \<noteq> []"
    unfolding segs_def by (rule split_nonempty)
  have df: "\<forall>seg \<in> set segs. CHR ''.'' \<notin> set seg"
    unfolding segs_def using split_no_sep by blast
  have e': "\<not> sublist [[], [], []] (rev segs)"
    using e sublist_rev [of "[[], [], []]" segs] by (simp add: segs_def)
  obtain innermost outer where r: "rev segs = innermost # outer"
    using ne by (cases "rev segs") auto
  have once: "classNameAbbreviated className = joinDots (rev segs)"
    unfolding r
    using r not_sublist_tl [OF e'] l
    by (intro classNameAbbreviated_short) (simp_all add: segs_def)
  obtain seg0 rest where s: "segs = seg0 # rest"
    using ne by (cases segs) auto
  have again: "rev (split (CHR ''.'') (joinDots (rev segs))) = seg0 # rest"
    using split_joinDots [of "rev segs"] ne df s by simp
  have l': "length (joinDots (rev segs)) \<le> 77"
    using l by (simp add: length_joinDots_rev segs_def joinDots_split)
  have "\<not> sublist [[], [], []] rest"
    using not_sublist_tl [OF e] by (simp add: segs_def [symmetric] s)
  from classNameAbbreviated_short [OF again this l']
  have "classNameAbbreviated (joinDots (rev segs)) = joinDots segs"
    by (simp add: s)
  then show ?thesis
    by (simp add: once segs_def joinDots_split)
qed

lemma plus_class_then_quote:
  assumes q: "list_all notQuote c" and m: "\<not> (c \<noteq> [] \<and> list_all isDigit c)"
  shows "plus_class isDigit (c @ CHR 0x22 # rest) = None \<or>
         (\<exists>g x r. plus_class isDigit (c @ CHR 0x22 # rest) = Some (g, x # r) \<and> x \<noteq> CHR 0x22)"
proof (cases "dropWhile isDigit c")
  case Nil
  then have "list_all isDigit c"
    by (simp add: list_all_iff dropWhile_eq_Nil_conv)
  with m have "c = []"
    by blast
  then show ?thesis
    by (simp add: plus_class_def quote_not_digit)
next
  case (Cons x e)
  then have x: "x \<in> set c" "\<not> isDigit x"
    using hd_dropWhile [of isDigit c] set_dropWhileD [of x isDigit c] by auto
  with q have nq: "x \<noteq> CHR 0x22"
    by (auto simp: list_all_iff notQuote_def)
  from x have tw: "takeWhile isDigit (c @ CHR 0x22 # rest) = takeWhile isDigit c"
    and dw: "dropWhile isDigit (c @ CHR 0x22 # rest) = x # e @ CHR 0x22 # rest"
    by (simp_all add: takeWhile_append1 dropWhile_append1 Cons)
  show ?thesis
    using nq by (simp add: plus_class_def tw dw)
qed

lemma summaryAt_malformed_count:
  assumes "list_all notQuote c" and "\<not> (c \<noteq> [] \<and> list_all isDigit c)"
  shows "summaryAt (summaryText c i r b ch @ post) = None"
  using plus_class_then_quote [OF assms,
          of "'' statements-invoked='' @ [CHR 0x22] @ i @ [CHR 0x22] @ '' statement-rate=''
              @ [CHR 0x22] @ r @ [CHR 0x22] @ '' branch-rate='' @ [CHR 0x22] @ b
              @ [CHR 0x22] @ '' version='' @ [CHR 0x22] @ ''1'' @ [ch] @ ''0'' @ [CHR 0x22] @ post"]
  unfolding summaryAt_def summaryText_def
  by (auto simp: lit_iff)

text \<open>The report of the example.\<close>

lemma summaryMatch_exampleXml:
  "summaryMatch exampleXml = Some (''100'', ''80'', ''80.0'', ''50.00'')"
  by code_simp

lemma classMatches_exampleXml:
  "classMatches exampleXml = [(''a.B'', ''a/B.scala'', ''10'', ''5'')]"
  by code_simp

lemma parse_examples:
  "parseInt ''100'' = Num 100" "parseInt ''10'' = Num 10" "parseInt ''5'' = Num 5"
  "parseInt ''7'' = Num 7" "parseInt ''0'' = Num 0" "parseFloat ''80.0'' = Num 80"
  by (simp_all add: parse_defs)

lemma parseReport_exampleXml:
  "parseReport exampleXml [''README.md'', ''src/a/B.scala''] = Inr exampleReport"
proof -
  have ch: "isChanged [''README.md'', ''src/a/B.scala''] exampleClass"
    by code_simp
  then show ?thesis
    by (simp add: parseReport_def summaryMatch_exampleXml classMatches_exampleXml
        reportClass_def parse_examples sumOver_def arith_defs exampleReport_def exampleAll_def
        exampleClass_def Let_def)
qed

section \<open>The icon of a rate\<close>

text \<open>
  Claim C8. For every rate the icon is exactly one of green, yellow and red: green when
  the rate is at least 0.8, yellow when it is at least 0.6 and below 0.8, red when it is
  below 0.6 or is \<^verbatim>\<open>NaN\<close>. The two boundaries are the numbers that the literals
  \<^verbatim>\<open>0.8\<close> and \<^verbatim>\<open>0.6\<close> of the code denote, the binary64 values nearest to 4/5 and
  to 3/5: \<open>3602879701896397 / 2^52\<close> and \<open>5404319552844595 / 2^53\<close>. The icon is
  monotonic: a rate that is at least another one never gets a worse icon.
\<close>

theorem coverageRateIcon_step:
  "iconThresholds = (round64 (4 / 5), round64 (3 / 5)) \<and>
   round64 (4 / 5) = Num (3602879701896397 / 2 ^ 52) \<and>
   round64 (3 / 5) = Num (5404319552844595 / 2 ^ 53) \<and>
   (coverageRateIcon rate iconThresholds = '':green_circle:'' \<longleftrightarrow>
      js_ge rate (round64 (4 / 5))) \<and>
   (coverageRateIcon rate iconThresholds = '':yellow_circle:'' \<longleftrightarrow>
      js_ge rate (round64 (3 / 5)) \<and> js_lt rate (round64 (4 / 5))) \<and>
   (coverageRateIcon rate iconThresholds = '':red_circle:'' \<longleftrightarrow>
      js_lt rate (round64 (3 / 5)) \<or> rate = NaN) \<and>
   coverageRateIcon NaN iconThresholds = '':red_circle:'' \<and>
   coverageRateIcon rate iconThresholds
     \<in> {'':green_circle:'', '':yellow_circle:'', '':red_circle:''} \<and>
   (js_ge rate' rate \<longrightarrow>
      (coverageRateIcon rate iconThresholds = '':green_circle:'' \<longrightarrow>
         coverageRateIcon rate' iconThresholds = '':green_circle:'') \<and>
      (coverageRateIcon rate iconThresholds = '':yellow_circle:'' \<longrightarrow>
         coverageRateIcon rate' iconThresholds \<noteq> '':red_circle:''))"
proof -
  have t: "iconThresholds = (round64 (4 / 5), round64 (3 / 5))"
    by (rule iconThresholds_def)
  have hi: "round64 (4 / 5) = Num (3602879701896397 / 2 ^ 52)"
    by (simp add: round64_four_fifths)
  have lo: "round64 (3 / 5) = Num (5404319552844595 / 2 ^ 53)"
    by (simp add: round64_three_fifths)
  have rest: "(coverageRateIcon rate iconThresholds = '':green_circle:'' \<longleftrightarrow>
      js_ge rate (round64 (4 / 5))) \<and>
   (coverageRateIcon rate iconThresholds = '':yellow_circle:'' \<longleftrightarrow>
      js_ge rate (round64 (3 / 5)) \<and> js_lt rate (round64 (4 / 5))) \<and>
   (coverageRateIcon rate iconThresholds = '':red_circle:'' \<longleftrightarrow>
      js_lt rate (round64 (3 / 5)) \<or> rate = NaN) \<and>
   coverageRateIcon NaN iconThresholds = '':red_circle:'' \<and>
   coverageRateIcon rate iconThresholds
     \<in> {'':green_circle:'', '':yellow_circle:'', '':red_circle:''} \<and>
   (js_ge rate' rate \<longrightarrow>
      (coverageRateIcon rate iconThresholds = '':green_circle:'' \<longrightarrow>
         coverageRateIcon rate' iconThresholds = '':green_circle:'') \<and>
      (coverageRateIcon rate iconThresholds = '':yellow_circle:'' \<longrightarrow>
         coverageRateIcon rate' iconThresholds \<noteq> '':red_circle:''))"
    by (cases rate; cases rate')
       (auto simp: coverageRateIcon_def iconThresholds_def round64_four_fifths
          round64_three_fifths js_ge_def js_lt_def)
  from t hi lo rest show ?thesis
    by (intro conjI) blast+
qed

theorem coverageRateIcon_step_witness:
  "js_ge (Num (7 / 8)) (Num (3 / 4)) \<and>
   coverageRateIcon (Num (3 / 4)) iconThresholds = '':yellow_circle:'' \<and>
   coverageRateIcon (Num (7 / 8)) iconThresholds \<noteq> '':red_circle:'' \<and>
   coverageRateIcon (Num (3602879701896397 / 2 ^ 52)) iconThresholds = '':green_circle:'' \<and>
   coverageRateIcon (Num (5404319552844595 / 2 ^ 53)) iconThresholds = '':yellow_circle:'' \<and>
   coverageRateIcon (Num (5404319552844594 / 2 ^ 53)) iconThresholds = '':red_circle:'' \<and>
   coverageRateIcon NegZero iconThresholds = '':red_circle:'' \<and>
   coverageRateIcon PosInf iconThresholds = '':green_circle:''"
proof -
  have ge: "js_ge (Num (7 / 8)) (Num (3 / 4))"
    by (simp add: js_ge_def)
  have y: "coverageRateIcon (Num (3 / 4)) iconThresholds = '':yellow_circle:''"
    by (simp add: coverageRateIcon_def iconThresholds_def arith_defs)
  from coverageRateIcon_step [of "Num (3 / 4)" "Num (7 / 8)"] ge y
  have g: "coverageRateIcon (Num (7 / 8)) iconThresholds \<noteq> '':red_circle:''"
    by blast
  have hi: "coverageRateIcon (Num (3602879701896397 / 2 ^ 52)) iconThresholds = '':green_circle:''"
    by (simp add: coverageRateIcon_def iconThresholds_def arith_defs)
  have lo: "coverageRateIcon (Num (5404319552844595 / 2 ^ 53)) iconThresholds = '':yellow_circle:''"
    by (simp add: coverageRateIcon_def iconThresholds_def arith_defs)
  have below: "coverageRateIcon (Num (5404319552844594 / 2 ^ 53)) iconThresholds = '':red_circle:''"
    by (simp add: coverageRateIcon_def iconThresholds_def arith_defs)
  have z: "coverageRateIcon NegZero iconThresholds = '':red_circle:''"
    by (simp add: coverageRateIcon_def iconThresholds_def arith_defs)
  have i: "coverageRateIcon PosInf iconThresholds = '':green_circle:''"
    by (simp add: coverageRateIcon_def iconThresholds_def arith_defs)
  from ge y g hi lo below z i show ?thesis by (intro conjI)
qed

section \<open>The comment is created once and updated afterwards\<close>

text \<open>
  Claim C5. The comments are scanned in the order the store lists them, and the scan
  stops at the first comment whose body contains the tag: no page after that comment's
  page is fetched. If there is such a comment, the only write call is one update of that
  comment; if there is none, the only write call is one create. The published body ends
  with the tag in both cases.
\<close>

theorem createOrUpdateIssueComment_upsert:
  "snd (createOrUpdateIssueComment pages repository issueNumber commentBody) =
     (case filter hasTag (concat pages) of
        [] \<Rightarrow> [CreateComment repository issueNumber (commentBody @ ''\<newline>\<newline>'' @ commentTag)]
      | first # others \<Rightarrow>
          [UpdateComment repository (comment_id first)
             (commentBody @ ''\<newline>\<newline>'' @ commentTag)]) \<and>
   fst (createOrUpdateIssueComment pages repository issueNumber commentBody) =
     (if list_ex (list_ex hasTag) pages
      then Suc (length (takeWhile (\<lambda>comments. \<not> list_ex hasTag comments) pages))
      else length pages) \<and>
   list_all (\<lambda>c. endsWith (callBody c) commentTag)
     (snd (createOrUpdateIssueComment pages repository issueNumber commentBody))"
proof -
  obtain found n where f: "findExisting pages = (found, n)"
    by (cases "findExisting pages")
  have found: "found = List.find hasTag (concat pages)"
    using findExisting_fst [of pages] f by simp
  have n: "n = (if list_ex (list_ex hasTag) pages
      then Suc (length (takeWhile (\<lambda>comments. \<not> list_ex hasTag comments) pages))
      else length pages)"
    using findExisting_snd [of pages] f by simp
  have ends: "suffix commentTag (commentBody @ ''\<newline>\<newline>'' @ commentTag)"
    by (rule suffixI [of _ "commentBody @ ''\<newline>\<newline>''"]) simp
  show ?thesis
    using f n ends
    by (auto simp: createOrUpdateIssueComment_def found find_filter_conv endsWith_def
             split: list.splits)
qed

theorem createOrUpdateIssueComment_upsert_witness:
  "createOrUpdateIssueComment
     [[\<lparr>comment_id = 1, body = Some ''hello''\<rparr>, \<lparr>comment_id = 2, body = None\<rparr>],
      [\<lparr>comment_id = 7, body = Some (''old'' @ commentTag)\<rparr>,
       \<lparr>comment_id = 8, body = Some (commentTag @ ''x'')\<rparr>],
      [\<lparr>comment_id = 9, body = Some commentTag\<rparr>]] () 5 ''B''
   = (2, [UpdateComment () 7 (''B'' @ ''\<newline>\<newline>'' @ commentTag)]) \<and>
   createOrUpdateIssueComment
     [[\<lparr>comment_id = 1, body = Some ''hello''\<rparr>, \<lparr>comment_id = 2, body = None\<rparr>], []] () 5 ''B''
   = (2, [CreateComment () 5 (''B'' @ ''\<newline>\<newline>'' @ commentTag)])"
  using createOrUpdateIssueComment_upsert [of
     "[[\<lparr>comment_id = 1, body = Some ''hello''\<rparr>, \<lparr>comment_id = 2, body = None\<rparr>],
      [\<lparr>comment_id = 7, body = Some (''old'' @ commentTag)\<rparr>,
       \<lparr>comment_id = 8, body = Some (commentTag @ ''x'')\<rparr>],
      [\<lparr>comment_id = 9, body = Some commentTag\<rparr>]]" "()" 5 "''B''"]
    createOrUpdateIssueComment_upsert [of
     "[[\<lparr>comment_id = 1, body = Some ''hello''\<rparr>, \<lparr>comment_id = 2, body = None\<rparr>], []]"
     "()" 5 "''B''"]
  by (simp add: hasTag_def commentTag_def prod_eq_iff)

section \<open>Which sections the comment has\<close>

text \<open>
  Claim C3. The rendered comment is the sequence of the sections of those buckets whose
  summary rate is finite, in the order All files, Changed files; a section is never
  empty, it starts with the collapsible block's opening and the title. So a bucket has a
  section exactly when its rate is finite: with no finite rate the result is the empty
  string, and with only the changed rate not finite it is the All files section alone.
\<close>

theorem renderCommentMarkdown_sections:
  "renderCommentMarkdown fmt report =
     concat (map (\<lambda>(title, bucket). renderBucket fmt title bucket [])
       (filter (\<lambda>(title, bucket). isFinite (statementRate (summary bucket)))
          [(''All files'', all report), (''Changed files'', changed report)])) \<and>
   (\<forall>title bucket.
      prefix (''<details>\<newline><summary>'' @ title @ '' '') (renderBucket fmt title bucket [])) \<and>
   (\<not> isFinite (statementRate (summary (all report))) \<and>
    \<not> isFinite (statementRate (summary (changed report))) \<longrightarrow>
      renderCommentMarkdown fmt report = []) \<and>
   (isFinite (statementRate (summary (all report))) \<and>
    \<not> isFinite (statementRate (summary (changed report))) \<longrightarrow>
      renderCommentMarkdown fmt report = renderBucket fmt ''All files'' (all report) [])"
proof -
  have app: "renderBucket fmt ''Changed files'' (changed report)
               (renderBucket fmt ''All files'' (all report) []) =
             renderBucket fmt ''All files'' (all report) [] @
             renderBucket fmt ''Changed files'' (changed report) []"
    by (rule renderBucket_appends)
  have eq: "renderCommentMarkdown fmt report =
     concat (map (\<lambda>(title, bucket). renderBucket fmt title bucket [])
       (filter (\<lambda>(title, bucket). isFinite (statementRate (summary bucket)))
          [(''All files'', all report), (''Changed files'', changed report)]))"
    using app by (simp add: renderCommentMarkdown_def Let_def)
  have pre: "\<forall>title bucket.
      prefix (''<details>\<newline><summary>'' @ title @ '' '') (renderBucket fmt title bucket [])"
    using renderBucket_prefix by blast
  have none: "\<not> isFinite (statementRate (summary (all report))) \<and>
    \<not> isFinite (statementRate (summary (changed report))) \<longrightarrow>
      renderCommentMarkdown fmt report = []"
    by (simp add: renderCommentMarkdown_def Let_def)
  have only_all: "isFinite (statementRate (summary (all report))) \<and>
    \<not> isFinite (statementRate (summary (changed report))) \<longrightarrow>
      renderCommentMarkdown fmt report = renderBucket fmt ''All files'' (all report) []"
    by (simp add: renderCommentMarkdown_def Let_def)
  from eq pre none only_all show ?thesis by blast
qed

theorem renderCommentMarkdown_sections_witness:
  "isFinite (statementRate (summary exampleAll)) \<and>
   \<not> isFinite (statementRate (summary (exampleAll\<lparr>summary := exampleNaNSummary\<rparr>))) \<and>
   renderCommentMarkdown exampleFormat
     \<lparr>all = exampleAll, changed = exampleAll\<lparr>summary := exampleNaNSummary\<rparr>\<rparr> =
     renderBucket exampleFormat ''All files'' exampleAll [] \<and>
   renderCommentMarkdown exampleFormat
     \<lparr>all = exampleAll\<lparr>summary := exampleNaNSummary\<rparr>,
      changed = exampleAll\<lparr>summary := exampleNaNSummary\<rparr>\<rparr> = [] \<and>
   renderBucket exampleFormat ''All files'' exampleAll [] =
     ''<details>\<newline><summary>All files :green_circle: 80.0% (80/100)</summary>\<newline>\<newline>''
       @ ''| Class | Statement coverage |\<newline>|---|---|\<newline>''
       @ ''| `B.a` | :red_circle: 50.0% (5/10) |\<newline>\<newline></details>\<newline>''"
proof -
  have fin: "isFinite (statementRate (summary exampleAll))"
    by (simp add: exampleAll_def)
  have nan: "\<not> isFinite (statementRate (summary (exampleAll\<lparr>summary := exampleNaNSummary\<rparr>)))"
    by (simp add: exampleNaNSummary_def)
  have rendered: "renderBucket exampleFormat ''All files'' exampleAll [] =
     ''<details>\<newline><summary>All files :green_circle: 80.0% (80/100)</summary>\<newline>\<newline>''
       @ ''| Class | Statement coverage |\<newline>|---|---|\<newline>''
       @ ''| `B.a` | :red_circle: 50.0% (5/10) |\<newline>\<newline></details>\<newline>''"
  proof -
    have r: "round64 (90071992547409925 / 1125899906842624) = Num 80"
      using round64_nearest [of 6 "90071992547409925 / 1125899906842624" 5629499534213120]
      by (simp add: pow2_def)
    have d: "natDigits 0 = ''0''" "natDigits 5 = ''5''" "natDigits 10 = ''10''"
      "natDigits 50 = ''50''" "natDigits 80 = ''80''" "natDigits 100 = ''100''"
      by code_simp+
    have n: "classNameAbbreviated ''a.B'' = ''B.a''"
      by code_simp
    show ?thesis
      by (simp add: renderBucket_def renderClass_def exampleAll_def exampleClass_def
          exampleFormat_def Let_def arith_defs r d n coverageRateIcon_def iconThresholds_def
          intDigits_def)
  qed
  show ?thesis
    using renderCommentMarkdown_sections [of exampleFormat
            "\<lparr>all = exampleAll, changed = exampleAll\<lparr>summary := exampleNaNSummary\<rparr>\<rparr>"]
          renderCommentMarkdown_sections [of exampleFormat
            "\<lparr>all = exampleAll\<lparr>summary := exampleNaNSummary\<rparr>,
              changed = exampleAll\<lparr>summary := exampleNaNSummary\<rparr>\<rparr>"]
          fin nan rendered
    by simp
qed

section \<open>The changed bucket\<close>

text \<open>
  Claim C4. In every parsed report the changed bucket holds, in the order of the report,
  exactly the records whose filename occurs as a contiguous substring in at least one of
  the changed file paths. The path need not equal the filename nor start with it.
\<close>

theorem parseReport_changed_classes:
  "parseReport xml changedFiles = Inr report \<Longrightarrow>
   classes (changed report) =
     filter (\<lambda>c. \<exists>file \<in> set changedFiles. \<exists>p q. file = p @ filename c @ q)
       (classes (all report))"
proof -
  assume h: "parseReport xml changedFiles = Inr report"
  have ne: "\<forall>c \<in> set (map reportClass (classMatches xml)). filename c \<noteq> []"
    using reportClass_filename by auto
  have "filter (isChanged changedFiles) (map reportClass (classMatches xml)) =
        filter (\<lambda>c. \<exists>file \<in> set changedFiles. \<exists>p q. file = p @ filename c @ q)
          (map reportClass (classMatches xml))"
    by (rule filter_cong [OF refl]) (use ne isChanged_iff in blast)
  with h show ?thesis
    by (auto simp: parseReport_def Let_def split: option.splits)
qed

theorem parseReport_changed_classes_witness:
  "parseReport exampleXml [''README.md'', ''src/a/B.scala''] = Inr exampleReport \<and>
   classes (changed exampleReport) =
     filter (\<lambda>c. \<exists>file \<in> set [''README.md'', ''src/a/B.scala''].
                  \<exists>p q. file = p @ filename c @ q)
       (classes (all exampleReport)) \<and>
   classes (all exampleReport) = [exampleClass] \<and>
   classes (changed exampleReport) = [exampleClass] \<and>
   ''src/a/B.scala'' = ''src/'' @ filename exampleClass @ []"
proof -
  have h: "parseReport exampleXml [''README.md'', ''src/a/B.scala''] = Inr exampleReport"
    by (rule parseReport_exampleXml)
  have sel: "classes (changed exampleReport) =
     filter (\<lambda>c. \<exists>file \<in> set [''README.md'', ''src/a/B.scala''].
                  \<exists>p q. file = p @ filename c @ q)
       (classes (all exampleReport))"
    by (rule parseReport_changed_classes [OF h])
  have a: "classes (all exampleReport) = [exampleClass]"
    by (simp add: exampleReport_def exampleAll_def)
  have c: "classes (changed exampleReport) = [exampleClass]"
    by (simp add: exampleReport_def)
  have f: "''src/a/B.scala'' = ''src/'' @ filename exampleClass @ []"
    by (simp add: exampleClass_def)
  from h sel a c f show ?thesis by (intro conjI)
qed

section \<open>When parsing fails\<close>

text \<open>
  Claim C2. Parsing the text of a report raises an error exactly when no document-level
  summary marker can be located in the text. A text with a summary marker and no
  per-unit marker is parsed without an error, and both buckets of its report have the
  empty list of records.
\<close>

theorem parseReport_error_iff:
  "((\<exists>e. parseReport xml changedFiles = Inl e) \<longleftrightarrow> \<not> hasSummaryMarker xml) \<and>
   (hasSummaryMarker xml \<and> \<not> hasClassMarker xml \<longrightarrow>
      (\<exists>report. parseReport xml changedFiles = Inr report \<and>
         classes (all report) = [] \<and> classes (changed report) = []))"
proof -
  have err: "(\<exists>e. parseReport xml changedFiles = Inl e) \<longleftrightarrow> summaryMatch xml = None"
    by (auto simp: parseReport_def Let_def split: option.splits)
  have none: "\<exists>report. parseReport xml changedFiles = Inr report \<and>
         classes (all report) = [] \<and> classes (changed report) = []"
    if "summaryMatch xml \<noteq> None" and "classMatches xml = []"
    using that by (auto simp: parseReport_def Let_def split: option.splits)
  show ?thesis
  proof (intro conjI impI)
    show "(\<exists>e. parseReport xml changedFiles = Inl e) \<longleftrightarrow> \<not> hasSummaryMarker xml"
      unfolding err summaryMatch_None_marker by (rule refl)
  next
    assume h: "hasSummaryMarker xml \<and> \<not> hasClassMarker xml"
    have "summaryMatch xml \<noteq> None"
      unfolding summaryMatch_None_marker using h by (simp only: not_not)
    moreover have "classMatches xml = []"
      unfolding classMatches_Nil_marker using h by (rule conjunct2)
    ultimately show "\<exists>report. parseReport xml changedFiles = Inr report \<and>
         classes (all report) = [] \<and> classes (changed report) = []"
      by (rule none)
  qed
qed

theorem parseReport_error_iff_witness:
  "hasSummaryMarker exampleEmptyXml \<and> \<not> hasClassMarker exampleEmptyXml \<and>
   parseReport exampleEmptyXml [''src/a/B.scala''] =
     Inr \<lparr>all = \<lparr>summary = \<lparr>statementRate = Num 0, ReportSummary.statementsTotal = Num 0\<rparr>,
                  classes = []\<rparr>,
          changed = \<lparr>summary = exampleNaNSummary, classes = []\<rparr>\<rparr> \<and>
   \<not> hasSummaryMarker exampleNoSummaryXml \<and>
   parseReport exampleNoSummaryXml [''src/a/B.scala''] =
     Inl (Error ''unable to parse scoverage summary'')"
proof -
  have ok: "parseReport exampleEmptyXml [''src/a/B.scala''] =
     Inr \<lparr>all = \<lparr>summary = \<lparr>statementRate = Num 0, ReportSummary.statementsTotal = Num 0\<rparr>,
                  classes = []\<rparr>,
          changed = \<lparr>summary = exampleNaNSummary, classes = []\<rparr>\<rparr>"
    by code_simp
  have bad: "parseReport exampleNoSummaryXml [''src/a/B.scala''] =
     Inl (Error ''unable to parse scoverage summary'')"
    by code_simp
  have "classMatches exampleEmptyXml = []"
    by code_simp
  then have noclass: "\<not> hasClassMarker exampleEmptyXml"
    by (simp add: classMatches_Nil_marker)
  from parseReport_error_iff [of exampleEmptyXml "[''src/a/B.scala'']"] ok
  have s1: "hasSummaryMarker exampleEmptyXml"
    by auto
  from parseReport_error_iff [of exampleNoSummaryXml "[''src/a/B.scala'']"] bad
  have s2: "\<not> hasSummaryMarker exampleNoSummaryXml"
    by auto
  from s1 noclass ok s2 bad show ?thesis by (intro conjI)
qed

section \<open>The abbreviation of a class name\<close>

text \<open>
  Claim C6, as the code has it. Take a class name in which no three consecutive segments
  before the last are empty. Its abbreviation is computed by splitting the name at the
  dots, reversing the segments, keeping the innermost segment, and appending the
  remaining segments in the order of the reversed list, from the inner to the outer,
  each after a dot, as long as the result has at most 77 characters; where a segment
  would not fit, three dots are appended and nothing more.
\<close>

theorem classNameAbbreviated_greedy:
  "rev (split (CHR ''.'') className) = innermost # outer \<Longrightarrow>
   \<not> sublist [[], [], []] outer \<Longrightarrow>
   classNameAbbreviated className = greedyAppend innermost outer"
  by (rule classNameAbbreviated_greedyAppend)

theorem classNameAbbreviated_greedy_witness:
  "rev (split (CHR ''.'') ''a.b.C'') = ''C'' # [''b'', ''a''] \<and>
   \<not> sublist [[], [], []] [''b'', ''a''] \<and>
   classNameAbbreviated ''a.b.C'' = greedyAppend ''C'' [''b'', ''a''] \<and>
   classNameAbbreviated ''a.b.C'' = ''C.b.a'' \<and>
   rev (split (CHR ''.'') exampleLongName) =
     ''D'' # [replicate 30 (CHR ''c''), replicate 30 (CHR ''b''), replicate 30 (CHR ''a'')] \<and>
   classNameAbbreviated exampleLongName =
     ''D.'' @ replicate 30 (CHR ''c'') @ ''.'' @ replicate 30 (CHR ''b'') @ ''...''"
proof -
  have r: "rev (split (CHR ''.'') ''a.b.C'') = ''C'' # [''b'', ''a'']"
    by code_simp
  have e: "\<not> sublist [[], [], []] [''b'', ''a'']"
    by code_simp
  have v: "greedyAppend ''C'' [''b'', ''a''] = ''C.b.a''"
    by code_simp
  have r': "rev (split (CHR ''.'') exampleLongName) =
     ''D'' # [replicate 30 (CHR ''c''), replicate 30 (CHR ''b''), replicate 30 (CHR ''a'')]"
    by code_simp
  have e': "\<not> sublist [[], [], []]
     [replicate 30 (CHR ''c''), replicate 30 (CHR ''b''), replicate 30 (CHR ''a'')]"
    by code_simp
  have v': "greedyAppend ''D''
     [replicate 30 (CHR ''c''), replicate 30 (CHR ''b''), replicate 30 (CHR ''a'')] =
     ''D.'' @ replicate 30 (CHR ''c'') @ ''.'' @ replicate 30 (CHR ''b'') @ ''...''"
    by code_simp
  note g = classNameAbbreviated_greedy [OF r e]
  note g' = classNameAbbreviated_greedy [OF r' e']
  from r e g g [unfolded v] r' g' [unfolded v'] show ?thesis
    by (intro conjI)
qed

theorem classNameAbbreviated_greedy_counterexample:
  "classNameAbbreviated ''a.b.C'' = ''C.b.a'' \<and>
   specAbbreviated ''a.b.C'' = ''C.a.b'' \<and>
   classNameAbbreviated ''a....B'' = ''B...'' \<and>
   specAbbreviated ''a....B'' = ''B.a...'' \<and>
   rev (split (CHR ''.'') ''a....B'') = ''B'' # [[], [], [], ''a''] \<and>
   greedyAppend ''B'' [[], [], [], ''a''] = ''B....a''"
  by code_simp

text \<open>
  Claim C7, as the code has it. A name of at most 77 characters, with no three
  consecutive empty segments, is not truncated: its abbreviation is its segments in
  reverse order, joined by dots, so that abbreviating twice gives the name back. When no
  three consecutive segments before the last are empty, the abbreviation ends with three
  dots exactly when it is not all segments in reverse order joined by dots, that is,
  when a segment was left out. The abbreviation of any name has at most 80 characters,
  or 3 more than the innermost segment if that is longer.
\<close>

theorem classNameAbbreviated_properties:
  "rev (split (CHR ''.'') className) = innermost # outer \<Longrightarrow>
   (length className \<le> 77 \<and> \<not> sublist [[], [], []] (split (CHR ''.'') className) \<longrightarrow>
      classNameAbbreviated className = joinDots (innermost # outer) \<and>
      classNameAbbreviated (classNameAbbreviated className) = className) \<and>
   (\<not> sublist [[], [], []] outer \<longrightarrow>
      (endsWith (classNameAbbreviated className) ''...'' \<longleftrightarrow>
       classNameAbbreviated className \<noteq> joinDots (innermost # outer))) \<and>
   length (classNameAbbreviated className) \<le> max 80 (length innermost + 3)"
proof -
  assume r: "rev (split (CHR ''.'') className) = innermost # outer"
  have short: "classNameAbbreviated className = joinDots (innermost # outer) \<and>
      classNameAbbreviated (classNameAbbreviated className) = className"
    if l: "length className \<le> 77" and e: "\<not> sublist [[], [], []] (split (CHR ''.'') className)"
  proof -
    have "\<not> sublist [[], [], []] (rev (split (CHR ''.'') className))"
      using e sublist_rev [of "[[], [], []]" "split (CHR ''.'') className"] by simp
    from not_sublist_tl [OF this] have "\<not> sublist [[], [], []] outer"
      by (simp add: r)
    from classNameAbbreviated_short [OF r this l] classNameAbbreviated_twice [OF e l]
    show ?thesis by (rule conjI)
  qed
  have dots: "endsWith (classNameAbbreviated className) ''...'' \<longleftrightarrow>
       classNameAbbreviated className \<noteq> joinDots (innermost # outer)"
    if e: "\<not> sublist [[], [], []] outer"
  proof -
    have full: "\<not> endsWith (joinDots (innermost # outer)) ''...''"
      using segments_dotfree [OF r] e
      by (intro joinDots_no_three_dots dotsBelowThree_dotfree)
    have g: "classNameAbbreviated className = greedyAppend innermost outer"
      by (rule classNameAbbreviated_greedyAppend [OF r e])
    from full greedyAppend_cases [of innermost outer] show ?thesis
      unfolding g by auto
  qed
  have len: "length (classNameAbbreviated className) \<le> max 80 (length innermost + 3)"
    unfolding classNameAbbreviated_fold [OF r]
    by (rule abbreviate_length) simp
  from short dots len show ?thesis
    by blast
qed

theorem classNameAbbreviated_properties_witness:
  "rev (split (CHR ''.'') ''a.b.C'') = ''C'' # [''b'', ''a''] \<and>
   length ''a.b.C'' \<le> 77 \<and>
   \<not> sublist [[], [], []] (split (CHR ''.'') ''a.b.C'') \<and>
   \<not> sublist [[], [], []] [''b'', ''a''] \<and>
   classNameAbbreviated ''a.b.C'' = joinDots (''C'' # [''b'', ''a'']) \<and>
   classNameAbbreviated (classNameAbbreviated ''a.b.C'') = ''a.b.C'' \<and>
   \<not> endsWith (classNameAbbreviated ''a.b.C'') ''...'' \<and>
   length (classNameAbbreviated ''a.b.C'') \<le> max 80 (length ''C'' + 3) \<and>
   classNameAbbreviated ''a.b.C'' = ''C.b.a''"
proof -
  have r: "rev (split (CHR ''.'') ''a.b.C'') = ''C'' # [''b'', ''a'']"
    by code_simp
  have l: "length ''a.b.C'' \<le> 77"
    by simp
  have e: "\<not> sublist [[], [], []] (split (CHR ''.'') ''a.b.C'')"
    by code_simp
  have e': "\<not> sublist [[], [], []] [''b'', ''a'']"
    by code_simp
  have v: "classNameAbbreviated ''a.b.C'' = ''C.b.a''"
    by code_simp
  note p = classNameAbbreviated_properties [OF r]
  from p l e have a: "classNameAbbreviated ''a.b.C'' = joinDots (''C'' # [''b'', ''a''])"
    and b: "classNameAbbreviated (classNameAbbreviated ''a.b.C'') = ''a.b.C''"
    by blast+
  from p e' a have c: "\<not> endsWith (classNameAbbreviated ''a.b.C'') ''...''"
    by blast
  from p have d: "length (classNameAbbreviated ''a.b.C'') \<le> max 80 (length ''C'' + 3)"
    by blast
  from r l e e' a b c d v show ?thesis
    by (intro conjI)
qed

theorem classNameAbbreviated_properties_counterexample:
  "length ''a.B'' < 77 \<and>
   classNameAbbreviated ''a.B'' = ''B.a'' \<and>
   classNameAbbreviated (classNameAbbreviated ''a.B'') = ''a.B'' \<and>
   length (classNameAbbreviated (replicate 81 (CHR ''x''))) = 81 \<and>
   length (classNameAbbreviated (''p.'' @ replicate 81 (CHR ''x''))) = 84 \<and>
   classNameAbbreviated ''...'' = joinDots (rev (split (CHR ''.'') ''...'')) \<and>
   endsWith (classNameAbbreviated ''...'') ''...''"
  by code_simp

end
